theory Spec2Isabelle
  imports Main "HOL-Library.Char_ord" "HOL-Library.List_Lexorder" "HOL-Library.Sublist"
begin

section \<open>Python strings\<close>

text \<open>
  Python \<open>str\<close> values are modelled as \<open>string\<close> (lists of 8-bit characters). On this
  range the class \<open>\d\<close> of Python's \<open>re\<close> is the ten ASCII digits. Strings are compared
  as Python compares them: lexicographically by character code.
\<close>

definition is_digit :: "char \<Rightarrow> bool" where
  "is_digit c = (c \<in> set ''0123456789'')"

text \<open>\<open>s.split('\n')\<close>: the pieces between newlines, always at least one piece.\<close>

fun split_nl :: "string \<Rightarrow> string list" where
  "split_nl [] = [[]]"
| "split_nl (c # cs) =
     (if c = CHR ''\<newline>'' then [] # split_nl cs
      else (case split_nl cs of l # ls \<Rightarrow> (c # l) # ls | [] \<Rightarrow> [[c]]))"

text \<open>\<open>'\n'.join(ls)\<close>.\<close>

fun join_nl :: "string list \<Rightarrow> string" where
  "join_nl [] = []"
| "join_nl [l] = l"
| "join_nl (l # l' # ls) = l @ CHR ''\<newline>'' # join_nl (l' # ls)"

text \<open>Removing a literal prefix: \<open>None\<close> when the string does not start with it.\<close>

fun strip_prefix :: "string \<Rightarrow> string \<Rightarrow> string option" where
  "strip_prefix [] s = Some s"
| "strip_prefix (p # ps) [] = None"
| "strip_prefix (p # ps) (c # cs) = (if p = c then strip_prefix ps cs else None)"

section \<open>Edit-operation test fixture: \<open>simple-module.py\<close>\<close>

text \<open>
  The class \<open>Calculator\<close> has no fields; its two methods take \<open>self\<close> and two Python
  integers, which are unbounded.
\<close>

datatype Calculator = Calculator

fun add :: "Calculator \<Rightarrow> int \<Rightarrow> int \<Rightarrow> int" where
  "add self a b = a + b"

fun subtract :: "Calculator \<Rightarrow> int \<Rightarrow> int \<Rightarrow> int" where
  "subtract self a b = a - b"

section \<open>Task-index path repairer: \<open>process/fix_tasks_md.py\<close>\<close>

subsection \<open>The mapping from task numbers to task files\<close>

text \<open>
  The input is the list of entry names of the directory \<open>tasks/\<close>, in the order the
  operating system lists them. \<open>glob.glob('tasks/[0-9]*.md')\<close> keeps the names that
  start with a digit and end in \<open>.md\<close>, and returns each with the directory in front.
\<close>

definition fnmatch_task :: "string \<Rightarrow> bool" where
  "fnmatch_task name =
     (case name of [] \<Rightarrow> False | c # cs \<Rightarrow> is_digit c \<and> suffix ''.md'' cs)"

definition glob_tasks :: "string list \<Rightarrow> string list" where
  "glob_tasks names = map (\<lambda>name. ''tasks/'' @ name) (filter fnmatch_task names)"

text \<open>\<open>os.path.basename\<close>: what follows the last slash.\<close>

definition basename :: "string \<Rightarrow> string" where
  "basename filepath = rev (takeWhile (\<lambda>c. c \<noteq> CHR ''/'') (rev filepath))"

text \<open>\<open>re.match(r'^(\d+)-', filename)\<close>, giving group 1 of the match.\<close>

definition task_num_of :: "string \<Rightarrow> string option" where
  "task_num_of filename =
     (let ds = takeWhile is_digit filename in
      if ds \<noteq> [] \<and> strip_prefix ''-'' (dropWhile is_digit filename) \<noteq> None
      then Some ds else None)"

text \<open>
  The dictionary \<open>task_files\<close>: the paths are visited in sorted order and a later path
  replaces an earlier one with the same task number.
\<close>

definition task_files :: "string list \<Rightarrow> (string \<rightharpoonup> string)" where
  "task_files names =
     fold (\<lambda>filepath tf.
             (case task_num_of (basename filepath) of
                Some task_num \<Rightarrow> tf(task_num \<mapsto> filepath)
              | None \<Rightarrow> tf))
          (sort (glob_tasks names)) Map.empty"

subsection \<open>The two regular expressions\<close>

text \<open>
  Both patterns end in \<open>\(process/tasks/[^)]+\.md\)\<close>. After \<open>process/tasks/\<close> the class
  \<open>[^)]+\<close> can only run up to the first closing parenthesis, which \<open>\)\<close> must match; so
  the text before that parenthesis is at least one character followed by \<open>.md\<close>.
  \<open>match_tail\<close> returns what follows the match.
\<close>

definition match_tail :: "string \<Rightarrow> string option" where
  "match_tail s =
     (let body = takeWhile (\<lambda>c. c \<noteq> CHR '')'') s in
      case dropWhile (\<lambda>c. c \<noteq> CHR '')'') s of
        [] \<Rightarrow> None
      | _ # rest \<Rightarrow>
          if 3 < length body \<and> suffix ''.md'' body then Some rest else None)"

text \<open>
  A match object: where the match starts and ends in the searched string, and group 1.
\<close>

record re_match =
  m_start :: nat
  m_end :: nat
  group1 :: string

text \<open>
  \<open>\[#(\d+)\]\(process/tasks/[^)]+\.md\)\<close> tried at the head of \<open>s\<close>: the digits of
  group 1 are all the digits after \<open>[#\<close>, since \<open>\]\<close> must follow them. The result is
  group 1 and what follows the match.
\<close>

definition match_ref :: "string \<Rightarrow> (string \<times> string) option" where
  "match_ref s =
     (case strip_prefix ''[#'' s of
        None \<Rightarrow> None
      | Some s1 \<Rightarrow>
          let task_num = takeWhile is_digit s1 in
          if task_num = [] then None
          else (case strip_prefix ''](process/tasks/'' (dropWhile is_digit s1) of
                  None \<Rightarrow> None
                | Some s3 \<Rightarrow> map_option (\<lambda>rest. (task_num, rest)) (match_tail s3)))"

text \<open>\<open>re.search\<close>: the match at the leftmost position that has one.\<close>

fun search_from :: "nat \<Rightarrow> string \<Rightarrow> re_match option" where
  "search_from i [] = None"
| "search_from i (c # cs) =
     (case match_ref (c # cs) of
        Some (task_num, rest) \<Rightarrow>
          Some \<lparr>m_start = i, m_end = i + (length (c # cs) - length rest), group1 = task_num\<rparr>
      | None \<Rightarrow> search_from (Suc i) cs)"

definition re_search :: "string \<Rightarrow> re_match option" where
  "re_search line = search_from 0 line"

text \<open>
  The pattern of the substitution is built from the task number found:
  \<open>r'\[#' + task_num + r'\]\(process/tasks/[^)]+\.md\)'\<close>. The number consists of digits,
  so it stands for itself in the pattern.
\<close>

definition match_sub :: "string \<Rightarrow> string \<Rightarrow> string option" where
  "match_sub task_num s =
     (case strip_prefix (''[#'' @ task_num @ ''](process/tasks/'') s of
        None \<Rightarrow> None
      | Some s3 \<Rightarrow> match_tail s3)"

text \<open>
  \<open>re.sub\<close> scans from the left: at a match it emits the replacement for the matched
  text and goes on after the match, elsewhere it copies one character.
\<close>

function sub_all :: "string \<Rightarrow> (string \<Rightarrow> string) \<Rightarrow> string \<Rightarrow> string" where
  "sub_all task_num repl [] = []"
| "sub_all task_num repl (c # cs) =
     (case match_sub task_num (c # cs) of
        Some rest \<Rightarrow>
          repl (take (length (c # cs) - length rest) (c # cs)) @ sub_all task_num repl rest
      | None \<Rightarrow> c # sub_all task_num repl cs)"
  by pat_completeness auto
termination
proof (relation "measure (\<lambda>(task_num, repl, s). length s)")
  fix task_num :: string and repl :: "string \<Rightarrow> string" and c cs rest
  assume m: "match_sub task_num (c # cs) = Some rest"
  have strip: "strip_prefix p s = Some r \<Longrightarrow> length r \<le> length s" for p s r
    by (induction p s rule: strip_prefix.induct) (auto split: if_splits)
  from m obtain s3 where s3: "strip_prefix (''[#'' @ task_num @ ''](process/tasks/'') (c # cs) = Some s3"
    and t: "match_tail s3 = Some rest"
    by (auto simp: match_sub_def split: option.splits)
  from t obtain x where d: "dropWhile (\<lambda>c. c \<noteq> CHR '')'') s3 = x # rest"
    by (auto simp: match_tail_def Let_def split: list.splits if_splits)
  have "length (dropWhile (\<lambda>c. c \<noteq> CHR '')'') s3) \<le> length s3"
    by (rule length_dropWhile_le)
  with d have "length rest < length s3" by simp
  with strip [OF s3] have "length rest < length (c # cs)" by simp
  then show "((task_num, repl, rest), (task_num, repl, c # cs))
               \<in> measure (\<lambda>(task_num, repl, s). length s)"
    by simp
qed simp_all

text \<open>
  A replacement string without a backslash is used as it is. One with a backslash goes
  through the template parser of \<open>re\<close>, which either raises or yields a function from
  the matched text to its replacement; that parser is library code and is a parameter
  \<open>parse_template\<close> of the model.
\<close>

datatype error = ReError

type_synonym template_parser = "string \<Rightarrow> error + (string \<Rightarrow> string)"

definition re_sub :: "template_parser \<Rightarrow> string \<Rightarrow> string \<Rightarrow> string \<Rightarrow> error + string" where
  "re_sub parse_template task_num repl line =
     (if CHR 0x5C \<in> set repl then
        (case parse_template repl of
           Inl e \<Rightarrow> Inl e
         | Inr f \<Rightarrow> Inr (sub_all task_num f line))
      else Inr (sub_all task_num (\<lambda>_. repl) line))"

subsection \<open>The loop over the lines and the script\<close>

text \<open>The body of the loop: the line that is appended to \<open>fixed_lines\<close>.\<close>

definition fix_line :: "template_parser \<Rightarrow> (string \<rightharpoonup> string) \<Rightarrow> string \<Rightarrow> error + string" where
  "fix_line parse_template tf line =
     (case re_search line of
        None \<Rightarrow> Inr line
      | Some m \<Rightarrow>
          (case tf (group1 m) of
             None \<Rightarrow> Inr line
           | Some filepath \<Rightarrow>
               let correct_path = ''process/'' @ filepath in
               re_sub parse_template (group1 m)
                 (''[#'' @ group1 m @ '']('' @ correct_path @ '')'') line))"

text \<open>The loop: an exception raised for a line ends the script.\<close>

fun fixed_lines :: "template_parser \<Rightarrow> (string \<rightharpoonup> string) \<Rightarrow> string list \<Rightarrow> error + string list" where
  "fixed_lines parse_template tf [] = Inr []"
| "fixed_lines parse_template tf (line # lines) =
     (case fix_line parse_template tf line of
        Inl e \<Rightarrow> Inl e
      | Inr line' \<Rightarrow>
          (case fixed_lines parse_template tf lines of
             Inl e \<Rightarrow> Inl e
           | Inr lines' \<Rightarrow> Inr (line' # lines')))"

text \<open>
  \<open>open('tasks.md', 'r')\<close> opens the file in text mode with universal newlines: what
  \<open>read\<close> returns is the content of the file with every carriage return followed by a
  newline, and every other carriage return, turned into one newline.
\<close>

fun universal_newlines :: "string \<Rightarrow> string" where
  "universal_newlines [] = []"
| "universal_newlines [c] = (if c = CHR 0x0D then [CHR ''\<newline>''] else [c])"
| "universal_newlines (c # d # ds) =
     (if c = CHR 0x0D \<and> d = CHR ''\<newline>'' then CHR ''\<newline>'' # universal_newlines ds
      else if c = CHR 0x0D then CHR ''\<newline>'' # universal_newlines (d # ds)
      else c # universal_newlines (d # ds))"

text \<open>
  The script, from the entry names of \<open>tasks/\<close> and the content of the file \<open>tasks.md\<close> to
  the content written back to it. The text mode of \<open>open('tasks.md', 'w')\<close> writes a newline
  as the line separator of the system, which is the newline itself where the path
  separator is the slash, so the text is written as it is. The file is written after the
  loop, so an exception leaves it as it was. Decoding and encoding of the characters are
  taken to be inverse to each other.
\<close>

definition fix_tasks_md :: "template_parser \<Rightarrow> string list \<Rightarrow> string \<Rightarrow> error + string" where
  "fix_tasks_md parse_template names tasks_md =
     (let content = universal_newlines tasks_md in
      case fixed_lines parse_template (task_files names) (split_nl content) of
        Inl e \<Rightarrow> Inl e
      | Inr ls \<Rightarrow> Inr (join_nl ls))"

subsection \<open>Reference patterns in a line\<close>

text \<open>
  The vocabulary of the statements below. A reference pattern for the task number \<open>N\<close> is
  the text \<open>[#N](process/tasks/b.md)\<close>, where \<open>N\<close> is a non-empty run of digits and \<open>b\<close>
  is non-empty and has no closing parenthesis. A line carries a reference for \<open>N\<close> when
  such a text occurs in it. \<open>ref_nums\<close> lists the numbers of the reference patterns of a
  line, from the left.
\<close>

definition ref_link :: "string \<Rightarrow> string \<Rightarrow> string" where
  "ref_link task_num path = ''[#'' @ task_num @ '']('' @ path @ '')''"

definition is_task_num :: "string \<Rightarrow> bool" where
  "is_task_num N = (N \<noteq> [] \<and> list_all is_digit N)"

definition is_ref_body :: "string \<Rightarrow> bool" where
  "is_ref_body b = (b \<noteq> [] \<and> CHR '')'' \<notin> set b)"

definition old_link :: "string \<Rightarrow> string \<Rightarrow> string" where
  "old_link N b = ref_link N (''process/tasks/'' @ b @ ''.md'')"

definition carries_ref :: "string \<Rightarrow> string \<Rightarrow> bool" where
  "carries_ref line N =
     (is_task_num N \<and> (\<exists>pre b post. is_ref_body b \<and> line = pre @ old_link N b @ post))"

fun ref_nums :: "string \<Rightarrow> string list" where
  "ref_nums [] = []"
| "ref_nums (c # cs) =
     (case match_ref (c # cs) of
        Some (task_num, rest) \<Rightarrow> task_num # ref_nums cs
      | None \<Rightarrow> ref_nums cs)"

section \<open>Tool-manifest comparator: \<open>count_real_tools.py\<close>\<close>

subsection \<open>Finding and slicing\<close>

text \<open>
  \<open>find_at sub s i\<close> is the index of the leftmost occurrence of \<open>sub\<close> in \<open>s\<close>, where the
  first character of \<open>s\<close> has index \<open>i\<close>, and \<open>-1\<close> when there is none.
\<close>

fun find_at :: "string \<Rightarrow> string \<Rightarrow> nat \<Rightarrow> int" where
  "find_at sub [] i = (if sub = [] then int i else - 1)"
| "find_at sub (c # cs) i =
     (if prefix sub (c # cs) then int i else find_at sub cs (Suc i))"

text \<open>
  \<open>s.find(sub, start)\<close>: a negative \<open>start\<close> counts from the end and stops at the
  beginning; a \<open>start\<close> past the end finds nothing.
\<close>

definition py_find :: "string \<Rightarrow> string \<Rightarrow> int \<Rightarrow> int" where
  "py_find s sub start =
     (let n = int (length s);
          st = (if start < 0 then max 0 (start + n) else start)
      in if n < st then - 1 else find_at sub (drop (nat st) s) (nat st))"

text \<open>
  \<open>s[i:j]\<close>: each bound, when negative, counts from the end, and is clipped to the string.
\<close>

definition slice_index :: "nat \<Rightarrow> int \<Rightarrow> nat" where
  "slice_index n i = (if i < 0 then nat (max 0 (i + int n)) else min n (nat i))"

definition py_slice :: "string \<Rightarrow> int \<Rightarrow> int \<Rightarrow> string" where
  "py_slice s i j =
     (let a = slice_index (length s) i; b = slice_index (length s) j
      in take (b - a) (drop a s))"

subsection \<open>Values, exceptions and printed lines\<close>

text \<open>
  What \<open>json.loads\<close> returns. A dictionary is the list of its items in the order of
  insertion, so with distinct keys; the value of a float plays no part.
\<close>

datatype py_value =
    PyDict "(string \<times> py_value) list"
  | PyList "py_value list"
  | PyStr string
  | PyInt int
  | PyFloat
  | PyBool bool
  | PyNone

text \<open>The exceptions, all of them subclasses of \<open>Exception\<close>.\<close>

datatype exn = OSError | UnicodeDecodeError | JSONDecodeError | RecursionError
  | TypeError | AttributeError | NameError

text \<open>\<open>len(v)\<close> and \<open>list(v.keys())\<close>.\<close>

fun py_len :: "py_value \<Rightarrow> exn + nat" where
  "py_len (PyDict items) = Inr (length items)"
| "py_len (PyList vs) = Inr (length vs)"
| "py_len (PyStr s) = Inr (length s)"
| "py_len v = Inl TypeError"

fun py_keys :: "py_value \<Rightarrow> exn + string list" where
  "py_keys (PyDict items) = Inr (map fst items)"
| "py_keys v = Inl AttributeError"

text \<open>
  A printed line: \<open>f"{label}: {n} tools"\<close>, the line \<open>First 10 tools:\<close> with a list, the
  line \<open>f"{label}: {e}"\<close> of an \<open>except\<close> clause, or a fixed text.
\<close>

datatype printed =
    ToolsLine string nat
  | FirstTenLine "string list"
  | FailedLine string exn
  | TextLine string

text \<open>
  The body of a \<open>try\<close> block gives the lines it printed and the exception that ended it,
  if any; \<open>except Exception as e\<close> prints one more line for the exception.
\<close>

definition try_except :: "string \<Rightarrow> printed list \<times> exn option \<Rightarrow> printed list" where
  "try_except label body =
     (case body of
        (out, None) \<Rightarrow> out
      | (out, Some e) \<Rightarrow> out @ [FailedLine label e])"

text \<open>The two \<open>print\<close> statements that follow \<open>json.loads\<close> in both blocks.\<close>

definition print_tools :: "string \<Rightarrow> py_value \<Rightarrow> printed list \<times> exn option" where
  "print_tools label tools =
     (case py_len tools of
        Inl e \<Rightarrow> ([], Some e)
      | Inr n \<Rightarrow>
          (case py_keys tools of
             Inl e \<Rightarrow> ([ToolsLine label n], Some e)
           | Inr ks \<Rightarrow> ([ToolsLine label n, FirstTenLine (take 10 ks)], None)))"

subsection \<open>The first document\<close>

text \<open>
  The text between the marker and the next closing fence. \<open>json.loads\<close> is library code
  and a parameter \<open>loads\<close> of the model.
\<close>

definition cursor_json_str :: "string \<Rightarrow> string" where
  "cursor_json_str cursor_content =
     (let json_start = py_find cursor_content ''```json\<newline>{'' 0;
          json_end = py_find cursor_content ''\<newline>```'' json_start
      in py_slice cursor_content (json_start + 8) json_end)"

definition cursor_report :: "(string \<Rightarrow> exn + py_value) \<Rightarrow> string \<Rightarrow> printed list" where
  "cursor_report loads cursor_content =
     try_except ''Failed to parse Cursor JSON''
       (case loads (cursor_json_str cursor_content) of
          Inl e \<Rightarrow> ([], Some e)
        | Inr cursor_tools \<Rightarrow> print_tools ''CURSOR TOOLS'' cursor_tools)"

subsection \<open>The second document\<close>

text \<open>
  The loop over \<open>enumerate(our_content[json_start:])\<close>: the index at which the count of
  braces comes back to zero, or \<open>None\<close> when the loop ends without \<open>break\<close>.
\<close>

fun scan_braces :: "string \<Rightarrow> nat \<Rightarrow> int \<Rightarrow> nat option" where
  "scan_braces [] i brace_count = None"
| "scan_braces (c # cs) i brace_count =
     (if c = CHR ''{'' then scan_braces cs (Suc i) (brace_count + 1)
      else if c = CHR ''}'' then
        (if brace_count - 1 = 0 then Some i
         else scan_braces cs (Suc i) (brace_count - 1))
      else scan_braces cs (Suc i) brace_count)"

text \<open>
  The second block opens the file inside its \<open>try\<close>. When the loop ends without \<open>break\<close>
  the name \<open>our_json_str\<close> is unbound and \<open>json.loads(our_json_str)\<close> raises \<open>NameError\<close>.
\<close>

definition our_report :: "(string \<Rightarrow> exn + py_value) \<Rightarrow> exn + string \<Rightarrow> printed list" where
  "our_report loads our_file =
     try_except ''Failed to parse our JSON''
       (case our_file of
          Inl e \<Rightarrow> ([], Some e)
        | Inr our_content \<Rightarrow>
            let json_start = py_find our_content ''{\<newline>  \"'' 0 in
            if json_start = - 1
            then ([TextLine ''Could not find JSON start in our output''], None)
            else
              (case scan_braces (py_slice our_content json_start (int (length our_content))) 0 0 of
                 None \<Rightarrow> ([], Some NameError)
               | Some i \<Rightarrow>
                   (case loads (py_slice our_content json_start (json_start + int i + 1)) of
                      Inl e \<Rightarrow> ([], Some e)
                    | Inr our_tools \<Rightarrow> print_tools ''OUR TOOLS'' our_tools)))"

subsection \<open>The script\<close>

text \<open>
  A run of the script: the lines printed, and the exception that ended the process, if
  any. Each document is the text read from its file, or the exception raised by \<open>open\<close>
  or \<open>read\<close>. The first file is opened outside any \<open>try\<close> block.
\<close>

record run =
  printed_lines :: "printed list"
  uncaught :: "exn option"

definition count_real_tools :: "(string \<Rightarrow> exn + py_value) \<Rightarrow> exn + string \<Rightarrow> exn + string \<Rightarrow> run" where
  "count_real_tools loads cursor_file our_file =
     (case cursor_file of
        Inl e \<Rightarrow> \<lparr>printed_lines = [], uncaught = Some e\<rparr>
      | Inr cursor_content \<Rightarrow>
          \<lparr>printed_lines = cursor_report loads cursor_content @ our_report loads our_file,
           uncaught = None\<rparr>)"

subsection \<open>Braces of a text\<close>

text \<open>
  The number of opening braces of a text minus the number of its closing braces, counted
  as the loop counts them: without regard to JSON strings.
\<close>

fun brace_depth :: "string \<Rightarrow> int" where
  "brace_depth [] = 0"
| "brace_depth (c # cs) =
     (if c = CHR ''{'' then 1 else if c = CHR ''}'' then - 1 else 0) + brace_depth cs"

section \<open>Rule-file generator: \<open>create_rule_files.py\<close>\<close>

text \<open>
  The script writes text files and prints lines. The part of the world it touches is the
  content of the files, the set of directories and the lines printed so far. Text is
  written in UTF-8, so a character outside ASCII is the list of its bytes. Failures of the
  operating system (permissions, a full disk) are outside the model.
\<close>

record world =
  files :: "string \<rightharpoonup> string"
  dirs :: "string set"
  stdout :: "string list"

text \<open>The f-string \<open>frontmatter\<close> of \<open>create_rule_file\<close>.\<close>

definition frontmatter :: "string \<Rightarrow> string \<Rightarrow> string" where
  "frontmatter name description =
     ''---\<newline>'' @
     ''name: '' @ name @ ''\<newline>'' @
     ''description: '' @ description @ ''\<newline>'' @
     ''globs:\<newline>'' @
     ''  - \"**/*\"\<newline>'' @
     ''alwaysApply: false\<newline>'' @
     ''---\<newline>''"

text \<open>
  \<open>create_rule_file\<close>: opening the file for writing truncates it, the front matter and
  the content are written, and one line is printed.
\<close>

definition create_rule_file :: "string \<Rightarrow> string \<Rightarrow> string \<Rightarrow> string \<Rightarrow> world \<Rightarrow> world" where
  "create_rule_file file_path name description content w =
     w\<lparr>files := (files w)(file_path \<mapsto> frontmatter name description @ content),
       stdout := stdout w @ [''Created '' @ file_path]\<rparr>"

definition rules_dir :: string where
  "rules_dir = ''.cursor/rules''"

text \<open>
  \<open>if not os.path.exists(rules_dir): os.makedirs(rules_dir)\<close>: a path exists when it is
  a directory or a file; \<open>makedirs\<close> creates the directory and its parent.
\<close>

definition make_rules_dir :: "world \<Rightarrow> world" where
  "make_rules_dir w =
     (if rules_dir \<in> dirs w \<or> rules_dir \<in> dom (files w) then w
      else w\<lparr>dirs := dirs w \<union> {''.cursor'', rules_dir}\<rparr>)"

text \<open>\<open>os.path.join\<close> of two components, on a system whose separator is the slash.\<close>

definition path_join :: "string \<Rightarrow> string \<Rightarrow> string" where
  "path_join a b =
     (if prefix ''/'' b then b
      else if a = [] \<or> suffix ''/'' a then a @ b
      else a @ ''/'' @ b)"

text \<open>
  The six markdown bodies are triple-quoted literals that end with a newline; each is
  given here as the list of its lines.
\<close>

definition text_lines :: "string list \<Rightarrow> string" where
  "text_lines ls = concat (map (\<lambda>l. l @ ''\<newline>'') ls)"

definition body_orchestrator :: string where
  "body_orchestrator = text_lines
    [''# Minsky Workflow System'',
     '''',
     ''This rule provides an overview of the Minsky workflow system and serves as an entry point to the more detailed workflow rules. The Minsky workflow has been divided into focused rules to make it easier to understand and follow.'',
     '''',
     ''## Core Workflow Rules'',
     '''',
     ''The following rules form the complete Minsky workflow system:'',
     '''',
     ''1. [**minsky-cli-usage**](mdc:.cursor/rules/minsky-cli-usage.mdc) - Guidelines for using the Minsky CLI for all task and session operations'',
     ''2. [**minsky-session-management**](mdc:.cursor/rules/minsky-session-management.mdc) - Procedures for creating and managing sessions'',
     ''3. [**task-implementation-workflow**](mdc:.cursor/rules/task-implementation-workflow.mdc) - Step-by-step process for implementing tasks'',
     ''4. [**task-status-protocol**](mdc:.cursor/rules/task-status-protocol.mdc) - Procedures for checking and updating task status'',
     ''5. [**pr-preparation-workflow**](mdc:.cursor/rules/pr-preparation-workflow.mdc) - Guidelines for preparing and submitting PRs'',
     '''',
     ''## Fundamental Principle: CLI-Based Workflow'',
     '''',
     ''**CRITICAL REQUIREMENT**: ALL task and session management MUST be done through the Minsky CLI, not through direct file system operations. This includes:'',
     '''',
     ''- Task listing, status checking, and status updates'',
     ''- Session creation, navigation, and management'',
     ''- Task implementation and verification'',
     ''- PR preparation and submission'',
     '''',
     ''## When to Apply These Rules'',
     '''',
     ''These workflow rules should be applied:'',
     '''',
     ''- When starting work on a new task'',
     ''- When checking or updating task status'',
     ''- When creating or managing sessions'',
     ''- When implementing task requirements'',
     ''- When preparing pull requests'',
     '''',
     ''## Supporting Rules'',
     '''',
     ''The Minsky workflow is supported by these additional rules:'',
     '''',
     ''- [**session-first-workflow**](mdc:.cursor/rules/session-first-workflow.mdc) - Ensures all implementation work happens in dedicated sessions'',
     ''- [**creating-tasks**](mdc:.cursor/rules/creating-tasks.mdc) - Guidelines for creating well-structured task specifications'',
     ''- [**pr-description-guidelines**](mdc:.cursor/rules/pr-description-guidelines.mdc) - Format and content requirements for PR descriptions'',
     ''- [**rules-management**](mdc:.cursor/rules/rules-management.mdc) - Guidelines for managing Minsky rules'']"

definition body_cli_usage :: string where
  "body_cli_usage = text_lines
    [''# Minsky CLI Usage Protocol'',
     '''',
     [CHR 0xE2, CHR 0x9B, CHR 0x94, CHR 0xEF, CHR 0xB8, CHR 0x8F] @ '' **CRITICAL: ALL TASK AND SESSION OPERATIONS MUST USE THE MINSKY CLI**'',
     '''',
     ''## Core Principles'',
     '''',
     ''1. **Always Use Minsky CLI for Task/Session Data**'',
     ''   - NEVER use file listings or static documentation for task/session data'',
     ''   - NEVER directly manipulate Minsky's state files or databases'',
     ''   - NEVER delete or modify files in `~/.local/state/minsky/`'',
     ''   - NEVER read or write to `session-db.json` directly - this is STRICTLY FORBIDDEN'',
     ''   - ALWAYS use appropriate minsky commands (see Command Reference section below)'',
     '''',
     ''2. **Use Official Global Installation**'',
     ''   - Use the globally installed `minsky` CLI (available on your PATH, typically via `bun link`)'',
     ''   - **Do NOT use `bun run ...` for task/session operations**'',
     ''   - Only use `bun run ...` or direct script execution when developing or testing the Minsky CLI itself'',
     '''',
     ''3. **Data Integrity is Critical**'',
     ''   - Minsky maintains critical state in `~/.local/state/minsky/`'',
     ''   - Direct manipulation of these files will corrupt the system'',
     ''   - NEVER attempt to \"fix\" issues by deleting state files'',
     ''   - Deleting state files is STRICTLY FORBIDDEN as it:'',
     ''     - Corrupts Minsky's understanding of tasks and sessions'',
     ''     - Makes session management impossible'',
     ''     - May lead to lost work or inconsistent state'',
     ''     - Violates the core principle of CLI-based management'']"

definition body_session_management :: string where
  "body_session_management = text_lines
    [''# Minsky Session Management Protocol'',
     '''',
     ''**NO IMPLEMENTATION WORK CAN BEGIN WITHOUT AN ACTIVE SESSION**'',
     '''',
     ''This rule defines the procedures for creating, navigating, and managing Minsky sessions, which provide isolated workspaces for task implementation.'',
     '''',
     ''## What is a Minsky Session?'',
     '''',
     ''A Minsky session is an isolated workspace for implementing a specific task. It ensures:'',
     '''',
     ''1. **Isolation**: Changes are isolated from the main workspace until they're ready for review'',
     ''2. **Traceability**: Each session is associated with a specific task'',
     ''3. **Reproducibility**: Sessions can be recreated or updated as needed'']"

definition body_task_implementation :: string where
  "body_task_implementation = text_lines
    [''# Task Implementation Workflow'',
     '''',
     ''This rule provides a detailed, step-by-step process for implementing tasks in the Minsky workflow.'',
     '''',
     ''## Task Implementation Lifecycle'',
     '''',
     ''### 1. Task Selection'',
     '''',
     ''1. **List available tasks**:'',
     ''   ```bash'',
     ''   minsky tasks list --json'',
     ''   ```'',
     '''',
     ''2. **View task details**:'',
     ''   ```bash'',
     ''   minsky tasks get <task-id>'',
     ''   ```'',
     '''',
     ''3. **Check the current status**:'',
     ''   ```bash'',
     ''   minsky tasks status get <task-id>'',
     ''   ```'']"

definition body_task_status :: string where
  "body_task_status = text_lines
    [''# Task Status Protocol'',
     '''',
     ''This rule defines the standard protocol for checking, updating, and verifying task status within the Minsky system.'',
     '''',
     ''## Task Status Lifecycle'',
     '''',
     ''Tasks in the Minsky system progress through the following statuses:'',
     '''',
     ''- `TODO`: Not started, available to work on'',
     ''- `IN-PROGRESS`: Work has begun but is not complete'',
     ''- `IN-REVIEW`: Work is complete and awaiting review'',
     ''- `DONE`: Work is complete, reviewed, and merged'']"

definition body_pr_preparation :: string where
  "body_pr_preparation = text_lines
    [''# PR Preparation Workflow'',
     '''',
     ''This rule provides guidelines for preparing and submitting pull requests (PRs) in the Minsky workflow.'',
     '''',
     ''## PR Creation Process'',
     '''',
     ''### 1. Verify Implementation Completeness'',
     '''',
     ''Before creating a PR, ensure:'',
     '''',
     ''1. **All requirements are implemented**: Check the task specification to confirm all requirements are met'',
     ''2. **All tests pass**: Run the test suite to ensure all tests pass'',
     ''3. **Code quality is acceptable**: Check for any linting issues or code smells'',
     ''4. **Documentation is updated**: Ensure task documentation and changelog are updated'']"

text \<open>
  The six calls of \<open>create_rule_file\<close>, in the order of the script: file name, name,
  description and content.
\<close>

definition rule_calls :: "(string \<times> string \<times> string \<times> string) list" where
  "rule_calls =
    [(''minsky-workflow-orchestrator.mdc'',
      ''Minsky Workflow Orchestrator'',
      ''Overview of the Minsky workflow system and entry point to focused workflow rules'',
      body_orchestrator),
     (''minsky-cli-usage.mdc'',
      ''Minsky CLI Usage Protocol'',
      ''REQUIRED protocol for using the Minsky CLI for all task and session operations'',
      body_cli_usage),
     (''minsky-session-management.mdc'',
      ''Minsky Session Management Protocol'',
      ''REQUIRED protocol for starting, re-entering, and managing Minsky sessions'',
      body_session_management),
     (''task-implementation-workflow.mdc'',
      ''Task Implementation Workflow'',
      ''REQUIRED workflow for implementing tasks from start to completion'',
      body_task_implementation),
     (''task-status-protocol.mdc'',
      ''Task Status Protocol'',
      ''REQUIRED protocol for checking, updating, and verifying task status'',
      body_task_status),
     (''pr-preparation-workflow.mdc'',
      ''PR Preparation Workflow'',
      ''REQUIRED workflow for preparing and submitting pull requests'',
      body_pr_preparation)]"

text \<open>The script: the directory, the six calls, the closing line.\<close>

definition create_rule_files :: "world \<Rightarrow> world" where
  "create_rule_files w =
     (let w' = fold (\<lambda>(file_name, name, description, content).
                       create_rule_file (path_join rules_dir file_name) name description content)
                    rule_calls (make_rules_dir w)
      in w'\<lparr>stdout := stdout w' @
            [''All rule files created successfully with proper frontmatter.'']\<rparr>)"

text \<open>What the six calls write: the content of each of the six paths.\<close>

definition written :: "string \<rightharpoonup> string" where
  "written = map_of (rev (map (\<lambda>(file_name, name, description, content).
                             (path_join rules_dir file_name,
                              frontmatter name description @ content)) rule_calls))"

section \<open>Properties of the fixture\<close>

text \<open>
  C9. For all integers \<open>a\<close> and \<open>b\<close>, negative and zero included, \<open>add\<close> returns the sum
  \<open>a + b\<close> and \<open>subtract\<close> returns the difference \<open>a - b\<close>; in particular
  \<open>add(2,3) = 5\<close>, \<open>subtract(2,3) = -1\<close> and \<open>add(0,0) = 0\<close>.
\<close>

theorem calculator_add_subtract:
  "add Calculator a b = a + b \<and> subtract Calculator a b = a - b
   \<and> add Calculator 2 3 = 5 \<and> subtract Calculator 2 3 = - 1 \<and> add Calculator 0 0 = 0"
  by simp

section \<open>Properties of the task-index path repairer\<close>

subsection \<open>Splitting, matching and searching\<close>

lemma split_nl_nonempty: "split_nl s \<noteq> []"
  by (induction s) (auto split: list.splits)

lemma join_split_nl: "join_nl (split_nl s) = s"
proof (induction s)
  case Nil
  show ?case by simp
next
  case (Cons c cs)
  obtain l ls where sp: "split_nl cs = l # ls"
    using split_nl_nonempty [of cs] by (cases "split_nl cs") auto
  show ?case
  proof (cases "c = CHR ''\<newline>''")
    case True
    with Cons sp show ?thesis by simp
  next
    case False
    with Cons sp show ?thesis by (cases ls) auto
  qed
qed

lemma strip_prefix_Some: "strip_prefix p s = Some r \<longleftrightarrow> s = p @ r"
  by (induction p s rule: strip_prefix.induct) auto

lemma strip_prefix_append [simp]: "strip_prefix p (p @ r) = Some r"
  by (simp add: strip_prefix_Some)

lemma match_tail_iff:
  "match_tail s = Some rest \<longleftrightarrow> (\<exists>b. is_ref_body b \<and> s = b @ ''.md)'' @ rest)"
proof
  assume a: "match_tail s = Some rest"
  let ?P = "\<lambda>c. c \<noteq> CHR '')''"
  let ?body = "takeWhile ?P s"
  from a obtain x where d: "dropWhile ?P s = x # rest"
    and len: "3 < length ?body" and suf: "suffix ''.md'' ?body"
    by (auto simp: match_tail_def Let_def split: list.splits if_splits)
  have "\<not> ?P (hd (dropWhile ?P s))"
    using d by (intro hd_dropWhile) auto
  with d have x: "x = CHR '')''" by simp
  from suf obtain b where b: "?body = b @ ''.md''" by (auto simp: suffix_def)
  with len have bne: "b \<noteq> []" by auto
  have "\<forall>c\<in>set ?body. ?P c" by (auto dest: set_takeWhileD)
  with b have "CHR '')'' \<notin> set b" by auto
  moreover have "s = ?body @ dropWhile ?P s" by simp
  with b d x have "s = b @ ''.md)'' @ rest" by simp
  ultimately show "\<exists>b. is_ref_body b \<and> s = b @ ''.md)'' @ rest"
    using bne by (auto simp: is_ref_body_def)
next
  assume "\<exists>b. is_ref_body b \<and> s = b @ ''.md)'' @ rest"
  then obtain b where b: "b \<noteq> []" "CHR '')'' \<notin> set b" and s: "s = (b @ ''.md'') @ CHR '')'' # rest"
    by (auto simp: is_ref_body_def)
  let ?P = "\<lambda>c. c \<noteq> CHR '')''"
  have all: "\<And>c. c \<in> set (b @ ''.md'') \<Longrightarrow> ?P c" using b by auto
  have t: "takeWhile ?P s = b @ ''.md''"
    unfolding s using all by (subst takeWhile_append2) auto
  have d: "dropWhile ?P s = CHR '')'' # rest"
    unfolding s using all by (subst dropWhile_append2) auto
  from b have "3 < length (b @ ''.md'')" by (cases b) auto
  then show "match_tail s = Some rest"
    by (simp add: match_tail_def Let_def t d suffix_def)
qed

lemma digits_run:
  assumes "is_task_num N" "\<not> is_digit c"
  shows "takeWhile is_digit (N @ c # r) = N" "dropWhile is_digit (N @ c # r) = c # r"
proof -
  have all: "\<And>x. x \<in> set N \<Longrightarrow> is_digit x"
    using assms(1) by (auto simp: is_task_num_def list_all_iff)
  show "takeWhile is_digit (N @ c # r) = N"
    using all assms(2) by (subst takeWhile_append2) auto
  show "dropWhile is_digit (N @ c # r) = c # r"
    using all assms(2) by (subst dropWhile_append2) auto
qed

lemma match_ref_iff:
  "match_ref s = Some (N, rest) \<longleftrightarrow>
     is_task_num N \<and> (\<exists>b. is_ref_body b \<and> s = old_link N b @ rest)"
proof
  assume a: "match_ref s = Some (N, rest)"
  then obtain s1 s3 where s1: "s = ''[#'' @ s1"
    and N: "N = takeWhile is_digit s1" "N \<noteq> []"
    and s3: "dropWhile is_digit s1 = ''](process/tasks/'' @ s3"
    and t: "match_tail s3 = Some rest"
    by (auto simp: match_ref_def Let_def strip_prefix_Some split: option.splits if_splits)
  have "is_task_num N"
    using N by (auto simp: is_task_num_def list_all_iff dest: set_takeWhileD)
  moreover have "s1 = N @ ''](process/tasks/'' @ s3"
    using N(1) s3 takeWhile_dropWhile_id [of is_digit s1] by simp
  moreover from t obtain b where "is_ref_body b" "s3 = b @ ''.md)'' @ rest"
    by (auto simp: match_tail_iff)
  ultimately show "is_task_num N \<and> (\<exists>b. is_ref_body b \<and> s = old_link N b @ rest)"
    using s1 by (auto simp: old_link_def ref_link_def)
next
  assume "is_task_num N \<and> (\<exists>b. is_ref_body b \<and> s = old_link N b @ rest)"
  then obtain b where N: "is_task_num N" and b: "is_ref_body b"
    and s: "s = ''[#'' @ N @ CHR '']'' # (''(process/tasks/'' @ b @ ''.md)'' @ rest)"
    by (auto simp: old_link_def ref_link_def)
  have nd: "\<not> is_digit CHR '']''" by (simp add: is_digit_def)
  have t: "match_tail (b @ ''.md)'' @ rest) = Some rest"
    using b by (auto simp: match_tail_iff)
  have ne: "N \<noteq> []" using N by (simp add: is_task_num_def)
  show "match_ref s = Some (N, rest)"
    unfolding s match_ref_def
    using t ne by (simp add: digits_run [OF N nd] Let_def)
qed

lemma match_sub_iff:
  "match_sub N s = Some rest \<longleftrightarrow> (\<exists>b. is_ref_body b \<and> s = old_link N b @ rest)"
proof -
  define p where "p = ''[#'' @ N @ ''](process/tasks/''"
  have ol: "old_link N b @ rest = p @ b @ ''.md)'' @ rest" for b
    by (simp add: old_link_def ref_link_def p_def)
  show ?thesis
  proof (cases "strip_prefix p s")
    case None
    have "s \<noteq> p @ r" for r
      using None strip_prefix_Some [of p s r] by simp
    moreover have "match_sub N s = None"
      using None by (simp only: match_sub_def p_def [symmetric] option.case)
    ultimately show ?thesis by (simp only: ol) simp
  next
    case (Some s3)
    then have s: "s = p @ s3" by (simp only: strip_prefix_Some)
    have "match_sub N s = match_tail s3"
      using Some by (simp only: match_sub_def p_def [symmetric] option.case)
    then show ?thesis
      by (simp only: ol s match_tail_iff same_append_eq)
  qed
qed

lemma match_sub_match_ref:
  "is_task_num N \<Longrightarrow> match_sub N s = Some rest \<longleftrightarrow> match_ref s = Some (N, rest)"
  by (simp add: match_sub_iff match_ref_iff)

lemma match_ref_Nil [simp]: "match_ref [] = None"
  by (simp add: match_ref_def)

lemma match_sub_Nil [simp]: "match_sub N [] = None"
  by (simp add: match_sub_def)

lemma ref_nums_suffix:
  "N \<in> set (ref_nums s) \<longleftrightarrow> (\<exists>t rest. suffix t s \<and> match_ref t = Some (N, rest))"
proof (induction s)
  case Nil
  show ?case by simp
next
  case (Cons c cs)
  show ?case
  proof (cases "match_ref (c # cs)")
    case None
    then show ?thesis using Cons by (auto simp: suffix_Cons)
  next
    case (Some p)
    obtain M r where p: "p = (M, r)" by (cases p)
    show ?thesis using Cons Some p by (auto simp: suffix_Cons)
  qed
qed

lemma ref_nums_iff: "N \<in> set (ref_nums line) \<longleftrightarrow> carries_ref line N"
proof
  assume "N \<in> set (ref_nums line)"
  then obtain t rest where t: "suffix t line" "match_ref t = Some (N, rest)"
    by (auto simp: ref_nums_suffix)
  then obtain b where N: "is_task_num N" and b: "is_ref_body b" and tt: "t = old_link N b @ rest"
    by (auto simp: match_ref_iff)
  from t(1) obtain pre where "line = pre @ t" by (auto simp: suffix_def)
  with tt N b show "carries_ref line N" by (auto simp: carries_ref_def)
next
  assume "carries_ref line N"
  then obtain pre b post where N: "is_task_num N" and b: "is_ref_body b"
    and l: "line = pre @ old_link N b @ post"
    by (auto simp: carries_ref_def)
  have "match_ref (old_link N b @ post) = Some (N, post)"
    using N b by (auto simp: match_ref_iff)
  moreover have "suffix (old_link N b @ post) line" by (simp add: l suffix_def)
  ultimately show "N \<in> set (ref_nums line)" by (auto simp: ref_nums_suffix)
qed

lemma search_from_None_iff:
  "search_from i s = None \<longleftrightarrow> (\<forall>t. suffix t s \<longrightarrow> match_ref t = None)"
proof (induction s arbitrary: i)
  case Nil
  show ?case by simp
next
  case (Cons c cs)
  show ?case
  proof (cases "match_ref (c # cs)")
    case None
    then show ?thesis using Cons [of "Suc i"] by (auto simp: suffix_Cons)
  next
    case (Some p)
    then show ?thesis by (cases p) (auto simp: suffix_Cons)
  qed
qed

lemma re_search_None_iff: "re_search line = None \<longleftrightarrow> ref_nums line = []"
proof -
  have "ref_nums line = [] \<longleftrightarrow> (\<forall>N. N \<notin> set (ref_nums line))" by auto
  also have "\<dots> \<longleftrightarrow> (\<forall>t. suffix t line \<longrightarrow> match_ref t = None)"
    by (simp only: ref_nums_suffix) (metis option.exhaust option.distinct(1) surj_pair)
  finally show ?thesis by (simp add: re_search_def search_from_None_iff)
qed

lemma match_ref_rest:
  assumes "match_ref s = Some (N, rest)"
  shows "length rest < length s" "drop (length s - length rest) s = rest"
proof -
  from assms obtain b where s: "s = old_link N b @ rest"
    by (auto simp: match_ref_iff)
  show "length rest < length s" by (simp add: s old_link_def ref_link_def)
  show "drop (length s - length rest) s = rest" by (simp add: s)
qed

lemma search_from_Some:
  assumes "search_from i s = Some m"
  shows "i \<le> m_start m \<and> m_start m < m_end m \<and> m_end m \<le> i + length s
         \<and> match_ref (drop (m_start m - i) s) = Some (group1 m, drop (m_end m - i) s)
         \<and> (\<forall>j < m_start m - i. match_ref (drop j s) = None)"
  using assms
proof (induction s arbitrary: i)
  case Nil
  then show ?case by simp
next
  case (Cons c cs)
  show ?case
  proof (cases "match_ref (c # cs)")
    case None
    with Cons.prems have sf: "search_from (Suc i) cs = Some m" by simp
    note ih = Cons.IH [OF sf]
    from ih have le: "Suc i \<le> m_start m" by simp
    then have k: "m_start m - i = Suc (m_start m - Suc i)" by simp
    from ih le have e: "m_end m - i = Suc (m_end m - Suc i)" by auto
    have "\<forall>j < m_start m - i. match_ref (drop j (c # cs)) = None"
    proof (intro allI impI)
      fix j assume j: "j < m_start m - i"
      show "match_ref (drop j (c # cs)) = None"
      proof (cases j)
        case 0
        then show ?thesis using None by simp
      next
        case (Suc j')
        with j k have "j' < m_start m - Suc i" by simp
        with ih Suc show ?thesis by simp
      qed
    qed
    with ih le show ?thesis by (simp add: k e)
  next
    case (Some p)
    obtain N rest where p: "p = (N, rest)" by (cases p)
    from Cons.prems Some p
    have m: "m = \<lparr>m_start = i, m_end = i + (length (c # cs) - length rest), group1 = N\<rparr>"
      by simp
    from Some p have mr: "match_ref (c # cs) = Some (N, rest)" by simp
    note r = match_ref_rest [OF mr]
    show ?thesis using r mr by (simp add: m)
  qed
qed

lemma re_search_Some:
  assumes "re_search line = Some m"
  shows "m_start m < m_end m" "m_end m \<le> length line"
    "match_ref (drop (m_start m) line) = Some (group1 m, drop (m_end m) line)"
    "\<forall>j < m_start m. match_ref (drop j line) = None"
  using search_from_Some [of 0 line m] assms by (simp_all add: re_search_def)

lemma re_search_shape:
  assumes "re_search line = Some m"
  shows "is_task_num (group1 m)"
    "\<exists>b. is_ref_body b \<and>
         line = take (m_start m) line @ old_link (group1 m) b @ drop (m_end m) line"
proof -
  note r = re_search_Some [OF assms]
  from r(3) obtain b where N: "is_task_num (group1 m)" and b: "is_ref_body b"
    and d: "drop (m_start m) line = old_link (group1 m) b @ drop (m_end m) line"
    by (auto simp: match_ref_iff)
  show "is_task_num (group1 m)" by (rule N)
  have "line = take (m_start m) line @ drop (m_start m) line" by simp
  with d have "line = take (m_start m) line @ old_link (group1 m) b @ drop (m_end m) line"
    by simp
  with b show "\<exists>b. is_ref_body b \<and>
         line = take (m_start m) line @ old_link (group1 m) b @ drop (m_end m) line"
    by blast
qed

lemma sub_all_skip:
  "\<forall>j < k. match_sub N (drop j s) = None \<Longrightarrow> k \<le> length s \<Longrightarrow>
   sub_all N f s = take k s @ sub_all N f (drop k s)"
proof (induction k arbitrary: s)
  case 0
  show ?case by simp
next
  case (Suc k)
  then obtain c cs where s: "s = c # cs" by (cases s) auto
  from Suc.prems(1) have "match_sub N (drop 0 s) = None" by blast
  then have none: "match_sub N (c # cs) = None" by (simp add: s)
  have "\<forall>j < k. match_sub N (drop j cs) = None"
  proof (intro allI impI)
    fix j assume "j < k"
    then have "Suc j < Suc k" by simp
    with Suc.prems(1) have "match_sub N (drop (Suc j) s) = None" by blast
    then show "match_sub N (drop j cs) = None" by (simp add: s)
  qed
  moreover from Suc.prems(2) have "k \<le> length cs" by (simp add: s)
  ultimately have "sub_all N f cs = take k cs @ sub_all N f (drop k cs)"
    by (rule Suc.IH)
  then show ?case using none by (simp add: s)
qed

lemma sub_all_none:
  assumes "\<forall>j. match_sub N (drop j s) = None"
  shows "sub_all N f s = s"
proof -
  have "sub_all N f s = take (length s) s @ sub_all N f (drop (length s) s)"
    using assms by (intro sub_all_skip) auto
  then show ?thesis by simp
qed

lemma sub_all_at:
  assumes "match_sub N s = Some rest"
  shows "sub_all N f s = f (take (length s - length rest) s) @ sub_all N f rest"
proof (cases s)
  case Nil
  with assms show ?thesis by simp
next
  case (Cons c cs)
  with assms show ?thesis by simp
qed

lemma no_ref_no_match_sub:
  assumes N: "is_task_num N" and no: "N \<notin> set (ref_nums post)"
  shows "match_sub N (drop j post) = None"
proof (rule ccontr)
  assume "match_sub N (drop j post) \<noteq> None"
  then obtain rest where "match_sub N (drop j post) = Some rest" by auto
  then have "match_ref (drop j post) = Some (N, rest)"
    using N by (simp add: match_sub_match_ref)
  moreover have "suffix (drop j post) post" by (rule suffix_drop)
  ultimately have "N \<in> set (ref_nums post)" by (auto simp: ref_nums_suffix)
  with no show False by simp
qed

lemma backslash_not_digit: "\<not> is_digit (CHR 0x5C)"
  by (simp add: is_digit_def)

lemma digit_not_backslash: "is_task_num N \<Longrightarrow> CHR 0x5C \<notin> set N"
proof
  assume N: "is_task_num N" and "CHR 0x5C \<in> set N"
  then have "is_digit (CHR 0x5C)" by (simp add: is_task_num_def list_all_iff)
  with backslash_not_digit show False by simp
qed

lemma re_search_in_ref_nums:
  assumes "re_search line = Some m"
  shows "group1 m \<in> set (ref_nums line)"
proof -
  from re_search_Some(3) [OF assms]
  have "match_ref (drop (m_start m) line) = Some (group1 m, drop (m_end m) line)" .
  moreover have "suffix (drop (m_start m) line) line" by (rule suffix_drop)
  ultimately show ?thesis by (auto simp: ref_nums_suffix)
qed

lemma fix_line_rewrite:
  assumes s: "re_search line = Some m"
    and tf: "tf (group1 m) = Some filepath"
    and bs: "CHR 0x5C \<notin> set filepath"
    and no: "group1 m \<notin> set (ref_nums (drop (m_end m) line))"
  shows "fix_line parse_template tf line =
           Inr (take (m_start m) line @ ref_link (group1 m) (''process/'' @ filepath)
                @ drop (m_end m) line)"
proof -
  define N where "N = group1 m"
  define repl where "repl = ref_link N (''process/'' @ filepath)"
  note r = re_search_Some [OF s]
  have N: "is_task_num N" unfolding N_def by (rule re_search_shape(1) [OF s])
  have nb: "CHR 0x5C \<notin> set repl"
    using bs digit_not_backslash [OF N] by (auto simp: repl_def ref_link_def)
  have before: "\<forall>j < m_start m. match_sub N (drop j line) = None"
  proof (intro allI impI)
    fix j assume "j < m_start m"
    with r(4) have none: "match_ref (drop j line) = None" by simp
    show "match_sub N (drop j line) = None"
    proof (cases "match_sub N (drop j line)")
      case None then show ?thesis .
    next
      case (Some rest)
      then have "match_ref (drop j line) = Some (N, rest)"
        using N by (simp add: match_sub_match_ref)
      with none show ?thesis by simp
    qed
  qed
  have at: "match_sub N (drop (m_start m) line) = Some (drop (m_end m) line)"
    using r(3) N by (simp add: match_sub_match_ref N_def)
  have after: "\<forall>j. match_sub N (drop j (drop (m_end m) line)) = None"
  proof
    fix j
    have "N \<notin> set (ref_nums (drop (m_end m) line))" unfolding N_def by (rule no)
    with N show "match_sub N (drop j (drop (m_end m) line)) = None"
      by (rule no_ref_no_match_sub)
  qed
  have le: "m_start m \<le> length line" using r(1,2) by simp
  have "sub_all N (\<lambda>_. repl) line
          = take (m_start m) line @ sub_all N (\<lambda>_. repl) (drop (m_start m) line)"
    using before le by (rule sub_all_skip)
  also have "sub_all N (\<lambda>_. repl) (drop (m_start m) line)
          = repl @ sub_all N (\<lambda>_. repl) (drop (m_end m) line)"
    using sub_all_at [OF at] by simp
  also have "sub_all N (\<lambda>_. repl) (drop (m_end m) line) = drop (m_end m) line"
    using after by (rule sub_all_none)
  finally have sub: "sub_all N (\<lambda>_. repl) line
          = take (m_start m) line @ repl @ drop (m_end m) line" .
  have "fix_line parse_template tf line = re_sub parse_template N repl line"
    using s tf by (simp add: fix_line_def N_def repl_def ref_link_def)
  also have "\<dots> = Inr (sub_all N (\<lambda>_. repl) line)"
    using nb by (simp add: re_sub_def)
  finally have "fix_line parse_template tf line =
      Inr (take (m_start m) line @ repl @ drop (m_end m) line)"
    by (simp only: sub)
  then show ?thesis by (simp only: repl_def N_def)
qed

lemma fix_line_no_ref: "ref_nums line = [] \<Longrightarrow> fix_line parse_template tf line = Inr line"
  by (simp add: fix_line_def re_search_None_iff [symmetric])

lemma fix_line_not_key:
  "re_search line = Some m \<Longrightarrow> tf (group1 m) = None \<Longrightarrow> fix_line parse_template tf line = Inr line"
  by (simp add: fix_line_def)

lemma fix_line_no_key:
  assumes "\<forall>N\<in>set (ref_nums line). tf N = None"
  shows "fix_line parse_template tf line = Inr line"
proof (cases "re_search line")
  case None
  then show ?thesis by (simp add: fix_line_def)
next
  case (Some m)
  from re_search_in_ref_nums [OF Some] assms have "tf (group1 m) = None" by blast
  with Some show ?thesis by (rule fix_line_not_key)
qed

lemma fixed_lines_unchanged:
  "\<forall>l\<in>set ls. fix_line parse_template tf l = Inr l \<Longrightarrow> fixed_lines parse_template tf ls = Inr ls"
  by (induction ls) auto

lemma fixed_lines_nth:
  "fixed_lines parse_template tf ls = Inr ls' \<Longrightarrow>
   length ls' = length ls \<and> (\<forall>i < length ls. fix_line parse_template tf (ls ! i) = Inr (ls' ! i))"
proof (induction ls arbitrary: ls')
  case Nil
  then show ?case by simp
next
  case (Cons l ls)
  from Cons.prems obtain l' ls'' where l': "fix_line parse_template tf l = Inr l'"
    and r: "fixed_lines parse_template tf ls = Inr ls''" and e: "ls' = l' # ls''"
    by (auto split: sum.splits)
  from Cons.IH [OF r] l' show ?case
    by (auto simp: e nth_Cons split: nat.splits)
qed

text \<open>The dictionary holds, for a number, the last path in sorted order that has it.\<close>

lemma fold_last:
  "fold (\<lambda>x tf. (case key x of Some n \<Rightarrow> tf(n \<mapsto> x) | None \<Rightarrow> tf)) xs m0 N =
     (case filter (\<lambda>x. key x = Some N) xs of [] \<Rightarrow> m0 N | y # ys \<Rightarrow> Some (last (y # ys)))"
proof (induction xs arbitrary: m0)
  case Nil
  show ?case by simp
next
  case (Cons x xs)
  show ?case
    by (simp only: fold_Cons comp_apply Cons.IH)
       (auto split: option.splits list.splits)
qed

lemma task_files_last:
  "task_files names N =
     (case filter (\<lambda>p. task_num_of (basename p) = Some N) (sort (glob_tasks names)) of
        [] \<Rightarrow> None | y # ys \<Rightarrow> Some (last (y # ys)))"
  unfolding task_files_def by (simp only: fold_last)

lemma task_files_Some_D:
  assumes "task_files names N = Some p"
  shows "p \<in> set (glob_tasks names)" "task_num_of (basename p) = Some N"
proof -
  let ?f = "filter (\<lambda>p. task_num_of (basename p) = Some N) (sort (glob_tasks names))"
  from assms obtain y ys where f: "?f = y # ys" and p: "p = last (y # ys)"
    by (auto simp: task_files_last split: list.splits)
  have "last ?f \<in> set ?f" using f by (intro last_in_set) simp
  with f p have "p \<in> set ?f" by simp
  then show "p \<in> set (glob_tasks names)" "task_num_of (basename p) = Some N" by auto
qed

lemma task_files_unique:
  assumes "p0 \<in> set (glob_tasks names)" "task_num_of (basename p0) = Some N"
    and "\<forall>p\<in>set (glob_tasks names). task_num_of (basename p) = Some N \<longrightarrow> p = p0"
  shows "task_files names N = Some p0"
proof -
  let ?f = "filter (\<lambda>p. task_num_of (basename p) = Some N) (sort (glob_tasks names))"
  have "p0 \<in> set ?f" using assms(1,2) by simp
  then obtain y ys where f: "?f = y # ys" by (cases ?f) auto
  have "last ?f \<in> set ?f" using f by (intro last_in_set) simp
  then have "last ?f = p0" using assms(3) by auto
  with f show ?thesis by (simp add: task_files_last)
qed

lemma task_files_None:
  assumes "\<forall>p\<in>set (glob_tasks names). task_num_of (basename p) \<noteq> Some N"
  shows "task_files names N = None"
proof -
  have "filter (\<lambda>p. task_num_of (basename p) = Some N) (sort (glob_tasks names)) = []"
    using assms by (auto simp: filter_empty_conv)
  then show ?thesis by (simp add: task_files_last)
qed

lemma basename_tasks:
  assumes "CHR ''/'' \<notin> set name"
  shows "basename (''tasks/'' @ name) = name"
proof -
  have "rev (''tasks/'' @ name) = rev name @ CHR ''/'' # ''sksat''" by simp
  moreover have "takeWhile (\<lambda>c. c \<noteq> CHR ''/'') (rev name @ CHR ''/'' # ''sksat'') = rev name"
    using assms by (subst takeWhile_append2) auto
  ultimately show ?thesis by (simp add: basename_def)
qed

lemma task_num_of_prefix:
  assumes "task_num_of name = Some N"
  shows "prefix (N @ ''-'') name" "is_task_num N"
proof -
  from assms have N: "N = takeWhile is_digit name" "N \<noteq> []"
    and d: "strip_prefix ''-'' (dropWhile is_digit name) \<noteq> None"
    by (auto simp: task_num_of_def Let_def split: if_splits)
  from d obtain r where "dropWhile is_digit name = ''-'' @ r"
    by (auto simp: strip_prefix_Some)
  with N(1) have "name = N @ ''-'' @ r"
    using takeWhile_dropWhile_id [of is_digit name] by simp
  then show "prefix (N @ ''-'') name" by (auto simp: prefix_def)
  show "is_task_num N"
    using N by (auto simp: is_task_num_def list_all_iff dest: set_takeWhileD)
qed

lemma search_from_at:
  assumes "\<forall>j < k. match_ref (drop j s) = None"
    and "match_ref (drop k s) = Some (N, rest)"
  shows "search_from i s = Some \<lparr>m_start = i + k, m_end = i + (length s - length rest), group1 = N\<rparr>"
  using assms
proof (induction k arbitrary: i s)
  case 0
  then have m: "match_ref s = Some (N, rest)" by simp
  then obtain c cs where s: "s = c # cs" by (cases s) auto
  show ?case using m by (simp add: s)
next
  case (Suc k)
  from Suc.prems(2) obtain c cs where s: "s = c # cs" by (cases s) auto
  from Suc.prems(1) have "match_ref (drop 0 s) = None" by blast
  then have none: "match_ref (c # cs) = None" by (simp add: s)
  have b: "\<forall>j < k. match_ref (drop j cs) = None"
  proof (intro allI impI)
    fix j assume "j < k"
    then have "Suc j < Suc k" by simp
    with Suc.prems(1) have "match_ref (drop (Suc j) s) = None" by blast
    then show "match_ref (drop j cs) = None" by (simp add: s)
  qed
  from Suc.prems(2) have a: "match_ref (drop k cs) = Some (N, rest)" by (simp add: s)
  from match_ref_rest(1) [OF a] have "length rest < length cs" by simp
  then have e: "Suc (length cs - length rest) = Suc (length cs) - length rest"
    by simp
  from Suc.IH [OF b a, of "Suc i"] none show ?case
    by (simp add: s e)
qed

lemma re_search_at:
  assumes "\<forall>j < k. match_ref (drop j line) = None"
    and "match_ref (drop k line) = Some (N, rest)"
  shows "re_search line = Some \<lparr>m_start = k, m_end = length line - length rest, group1 = N\<rparr>"
  using search_from_at [OF assms, of 0] by (simp add: re_search_def)

lemma task_files_only_entry:
  assumes in0: "name0 \<in> set names" and g0: "fnmatch_task name0"
    and n0: "task_num_of name0 = Some N"
    and slash: "\<forall>name\<in>set names. CHR ''/'' \<notin> set name"
    and only: "\<forall>name\<in>set names. prefix (N @ ''-'') name \<longrightarrow> name = name0"
  shows "task_files names N = Some (''tasks/'' @ name0)"
proof (rule task_files_unique)
  show "''tasks/'' @ name0 \<in> set (glob_tasks names)"
    using in0 g0 by (simp add: glob_tasks_def)
  have "basename (''tasks/'' @ name0) = name0"
    using in0 slash by (intro basename_tasks) blast
  with n0 show "task_num_of (basename (''tasks/'' @ name0)) = Some N"
    by (simp only:)
  show "\<forall>p\<in>set (glob_tasks names). task_num_of (basename p) = Some N \<longrightarrow> p = ''tasks/'' @ name0"
  proof (intro ballI impI)
    fix p assume p: "p \<in> set (glob_tasks names)" and k: "task_num_of (basename p) = Some N"
    from p obtain name where name: "name \<in> set names" "p = ''tasks/'' @ name"
      by (auto simp: glob_tasks_def)
    have "basename (''tasks/'' @ name) = name"
      using name(1) slash by (intro basename_tasks) blast
    with k name(2) have "task_num_of name = Some N" by (simp only:)
    then have "prefix (N @ ''-'') name" by (rule task_num_of_prefix)
    with only name(1) have "name = name0" by blast
    with name(2) show "p = ''tasks/'' @ name0" by simp
  qed
qed

subsection \<open>Lines that pass through\<close>

text \<open>
  C8. A line of \<open>tasks.md\<close> that contains no reference pattern
  \<open>[#N](process/tasks/...)\<close>, for any \<open>N\<close>, is never modified: the loop body returns it
  as it is, without an error, and it stands unchanged at its place among the fixed lines.
\<close>

theorem line_without_reference_unchanged:
  assumes "\<forall>N. \<not> carries_ref (ls ! i) N" and "i < length ls"
  shows "fix_line parse_template tf (ls ! i) = Inr (ls ! i)
         \<and> (\<forall>ls'. fixed_lines parse_template tf ls = Inr ls' \<longrightarrow> ls' ! i = ls ! i)"
proof -
  from assms(1) have "ref_nums (ls ! i) = []"
    by (cases "ref_nums (ls ! i)") (auto simp: ref_nums_iff [symmetric])
  then have f: "fix_line parse_template tf (ls ! i) = Inr (ls ! i)"
    by (rule fix_line_no_ref)
  with assms(2) show ?thesis
    by (auto dest!: fixed_lines_nth)
qed

text \<open>
  A line with parentheses, a link that is no reference pattern, and no task number.
\<close>

theorem line_without_reference_unchanged_witness:
  "(\<forall>N. \<not> carries_ref ([''# Tasks'', ''- [#007](process/tasks/foo.md) Some title'',
                          ''see (notes.md) and [#x](process/tasks/y.md)''] ! 2) N)
   \<and> fix_line (\<lambda>_. Inl ReError) (task_files [''007-bar.md''])
        ''see (notes.md) and [#x](process/tasks/y.md)''
      = Inr ''see (notes.md) and [#x](process/tasks/y.md)''
   \<and> fixed_lines (\<lambda>_. Inl ReError) (task_files [''007-bar.md''])
        [''# Tasks'', ''- [#007](process/tasks/foo.md) Some title'',
         ''see (notes.md) and [#x](process/tasks/y.md)'']
      = Inr [''# Tasks'', ''- [#007](process/tasks/007-bar.md) Some title'',
             ''see (notes.md) and [#x](process/tasks/y.md)'']"
proof -
  let ?l = "''see (notes.md) and [#x](process/tasks/y.md)''"
  let ?ls = "[''# Tasks'', ''- [#007](process/tasks/foo.md) Some title'', ?l]"
  have r: "ref_nums ?l = []" by code_simp
  have no: "\<forall>N. \<not> carries_ref (?ls ! 2) N"
    using r by (simp add: ref_nums_iff [symmetric])
  have i: "2 < length ?ls" by simp
  have fl: "fixed_lines (\<lambda>_. Inl ReError) (task_files [''007-bar.md'']) ?ls
      = Inr [''# Tasks'', ''- [#007](process/tasks/007-bar.md) Some title'', ?l]"
    by code_simp
  from line_without_reference_unchanged [OF no i, of "\<lambda>_. Inl ReError" "task_files [''007-bar.md'']"]
  have "fix_line (\<lambda>_. Inl ReError) (task_files [''007-bar.md'']) ?l = Inr ?l" by simp
  with no fl show ?thesis by simp
qed

text \<open>
  C7, amended. A line of \<open>tasks.md\<close> whose leftmost reference pattern carries a task
  number that is not a key of the mapping built from \<open>tasks/\<close> is left unchanged, and the
  missing file is not an error.
\<close>

theorem leftmost_reference_without_file_unchanged:
  assumes "re_search line = Some m" and "task_files names (group1 m) = None"
  shows "fix_line parse_template (task_files names) line = Inr line"
  using assms by (rule fix_line_not_key)

text \<open>Task 042 has no file among the entries of \<open>tasks/\<close>.\<close>

theorem leftmost_reference_without_file_unchanged_witness:
  "re_search ''- [#042](process/tasks/042-gone.md) Old task''
     = Some \<lparr>m_start = 2, m_end = 35, group1 = ''042''\<rparr>
   \<and> task_files [''007-bar.md'', ''notes.md''] ''042'' = None
   \<and> fix_line (\<lambda>_. Inl ReError) (task_files [''007-bar.md'', ''notes.md''])
         ''- [#042](process/tasks/042-gone.md) Old task''
       = Inr ''- [#042](process/tasks/042-gone.md) Old task''"
proof -
  have s: "re_search ''- [#042](process/tasks/042-gone.md) Old task''
     = Some \<lparr>m_start = 2, m_end = 35, group1 = ''042''\<rparr>" by code_simp
  have t: "task_files [''007-bar.md'', ''notes.md'']
             (group1 \<lparr>m_start = 2, m_end = 35, group1 = ''042''\<rparr>) = None" by code_simp
  from leftmost_reference_without_file_unchanged [OF s t, of "\<lambda>_. Inl ReError"] s t
  show ?thesis by simp
qed

text \<open>
  C7 as stated, for every line that references a number without a file, fails when that
  reference is not the leftmost of its line: the search finds the reference to task 007
  first, the script rewrites it, and the line that references task 042 is changed.
\<close>

theorem second_reference_without_file_counterexample:
  "carries_ref ''- [#007](process/tasks/a.md) blocks [#042](process/tasks/b.md)'' ''042''
   \<and> task_files [''007-bar.md''] ''042'' = None
   \<and> fix_line (\<lambda>_. Inl ReError) (task_files [''007-bar.md''])
         ''- [#007](process/tasks/a.md) blocks [#042](process/tasks/b.md)''
       = Inr ''- [#007](process/tasks/007-bar.md) blocks [#042](process/tasks/b.md)''"
proof -
  have "''042'' \<in> set (ref_nums ''- [#007](process/tasks/a.md) blocks [#042](process/tasks/b.md)'')"
    by code_simp
  then have "carries_ref ''- [#007](process/tasks/a.md) blocks [#042](process/tasks/b.md)'' ''042''"
    by (simp only: ref_nums_iff)
  moreover have "task_files [''007-bar.md''] ''042'' = None" by code_simp
  moreover have "fix_line (\<lambda>_. Inl ReError) (task_files [''007-bar.md''])
         ''- [#007](process/tasks/a.md) blocks [#042](process/tasks/b.md)''
       = Inr ''- [#007](process/tasks/007-bar.md) blocks [#042](process/tasks/b.md)''"
    by code_simp
  ultimately show ?thesis by (intro conjI)
qed

text \<open>Without a carriage return the text read is the content of the file.\<close>

lemma universal_newlines_id:
  "CHR 0x0D \<notin> set s \<Longrightarrow> universal_newlines s = s"
  by (induction s rule: universal_newlines.induct) auto

text \<open>
  C10, amended. When no line of the text read from \<open>tasks.md\<close> carries a reference pattern
  whose task number is a key of the mapping, the script writes back the text it read:
  splitting at the newlines and joining the unmodified lines with newlines is the
  identity. The text read is the content of the file with each pair of a carriage return
  and a newline, and each other carriage return, turned into a newline; so the content
  written is byte-for-byte the original for every file that holds no carriage return.
\<close>

theorem unrewritten_content_written_back:
  assumes "\<forall>l\<in>set (split_nl (universal_newlines tasks_md)).
             \<forall>N. carries_ref l N \<longrightarrow> task_files names N = None"
  shows "fix_tasks_md parse_template names tasks_md = Inr (universal_newlines tasks_md)
         \<and> (CHR 0x0D \<notin> set tasks_md \<longrightarrow>
              fix_tasks_md parse_template names tasks_md = Inr tasks_md)"
proof -
  define content where "content = universal_newlines tasks_md"
  have "\<forall>l\<in>set (split_nl content). fix_line parse_template (task_files names) l = Inr l"
  proof
    fix l assume "l \<in> set (split_nl content)"
    with assms have "\<forall>N\<in>set (ref_nums l). task_files names N = None"
      by (auto simp: ref_nums_iff content_def)
    then show "fix_line parse_template (task_files names) l = Inr l"
      by (rule fix_line_no_key)
  qed
  then have "fixed_lines parse_template (task_files names) (split_nl content)
               = Inr (split_nl content)"
    by (rule fixed_lines_unchanged)
  then have w: "fix_tasks_md parse_template names tasks_md = Inr (universal_newlines tasks_md)"
    by (simp add: fix_tasks_md_def Let_def join_split_nl content_def [symmetric])
  then show ?thesis by (simp add: universal_newlines_id)
qed

text \<open>
  A file without carriage returns, with a final newline and a reference to a task
  without a file.
\<close>

theorem unrewritten_content_written_back_witness:
  "split_nl (universal_newlines ''# Tasks\<newline>- [#042](process/tasks/x.md) t\<newline>'')
     = [''# Tasks'', ''- [#042](process/tasks/x.md) t'', []]
   \<and> task_files [''007-bar.md''] ''042'' = None
   \<and> CHR 0x0D \<notin> set ''# Tasks\<newline>- [#042](process/tasks/x.md) t\<newline>''
   \<and> fix_tasks_md (\<lambda>_. Inl ReError) [''007-bar.md'']
        ''# Tasks\<newline>- [#042](process/tasks/x.md) t\<newline>''
      = Inr ''# Tasks\<newline>- [#042](process/tasks/x.md) t\<newline>''"
proof -
  let ?c = "''# Tasks\<newline>- [#042](process/tasks/x.md) t\<newline>''"
  have sp: "split_nl (universal_newlines ?c) = [''# Tasks'', ''- [#042](process/tasks/x.md) t'', []]"
    by code_simp
  have t: "task_files [''007-bar.md''] ''042'' = None" by code_simp
  have cr: "CHR 0x0D \<notin> set ?c" by simp
  have r1: "ref_nums ''# Tasks'' = []" by code_simp
  have r2: "ref_nums ''- [#042](process/tasks/x.md) t'' = [''042'']" by code_simp
  have r3: "ref_nums [] = []" by simp
  have hyp: "\<forall>l\<in>set (split_nl (universal_newlines ?c)).
               \<forall>N. carries_ref l N \<longrightarrow> task_files [''007-bar.md''] N = None"
    unfolding sp using r1 r2 r3 t
    by (simp add: ref_nums_iff [symmetric])
  from unrewritten_content_written_back [OF hyp, of "\<lambda>_. Inl ReError"] cr
  have "fix_tasks_md (\<lambda>_. Inl ReError) [''007-bar.md''] ?c = Inr ?c" by blast
  with sp t cr show ?thesis by (intro conjI)
qed

text \<open>
  C10 as stated, with the content written byte-for-byte equal to the original, fails for
  a file whose lines end in a carriage return and a newline: no line carries a reference
  pattern and no line is rewritten, yet the file is written back with plain newlines.
\<close>

theorem carriage_return_content_counterexample:
  "split_nl (universal_newlines
       (''# Tasks'' @ [CHR 0x0D, CHR 0x0A] @ ''- plain line'' @ [CHR 0x0D, CHR 0x0A]))
     = [''# Tasks'', ''- plain line'', []]
   \<and> (\<forall>N. \<not> carries_ref ''# Tasks'' N)
   \<and> (\<forall>N. \<not> carries_ref ''- plain line'' N)
   \<and> (\<forall>N. \<not> carries_ref [] N)
   \<and> fix_tasks_md (\<lambda>_. Inl ReError) [''007-bar.md'']
        (''# Tasks'' @ [CHR 0x0D, CHR 0x0A] @ ''- plain line'' @ [CHR 0x0D, CHR 0x0A])
      = Inr ''# Tasks\<newline>- plain line\<newline>''
   \<and> ''# Tasks\<newline>- plain line\<newline>''
      \<noteq> ''# Tasks'' @ [CHR 0x0D, CHR 0x0A] @ ''- plain line'' @ [CHR 0x0D, CHR 0x0A]"
proof (intro conjI)
  show "split_nl (universal_newlines
       (''# Tasks'' @ [CHR 0x0D, CHR 0x0A] @ ''- plain line'' @ [CHR 0x0D, CHR 0x0A]))
     = [''# Tasks'', ''- plain line'', []]"
    by code_simp
  have "ref_nums ''# Tasks'' = []" by code_simp
  then show "\<forall>N. \<not> carries_ref ''# Tasks'' N" by (simp add: ref_nums_iff [symmetric])
  have "ref_nums ''- plain line'' = []" by code_simp
  then show "\<forall>N. \<not> carries_ref ''- plain line'' N" by (simp add: ref_nums_iff [symmetric])
  have "ref_nums [] = []" by simp
  then show "\<forall>N. \<not> carries_ref [] N" by (simp add: ref_nums_iff [symmetric])
  show "fix_tasks_md (\<lambda>_. Inl ReError) [''007-bar.md'']
        (''# Tasks'' @ [CHR 0x0D, CHR 0x0A] @ ''- plain line'' @ [CHR 0x0D, CHR 0x0A])
      = Inr ''# Tasks\<newline>- plain line\<newline>''"
    by code_simp
  show "''# Tasks\<newline>- plain line\<newline>''
      \<noteq> ''# Tasks'' @ [CHR 0x0D, CHR 0x0A] @ ''- plain line'' @ [CHR 0x0D, CHR 0x0A]"
    by simp
qed

subsection \<open>Lines that are rewritten\<close>

text \<open>
  C1, amended. Let \<open>tasks/\<close> hold the entry \<open>007-bar.md\<close> and no other entry whose name
  starts with \<open>007-\<close> (entry names hold no slash). Then every line of the form
  \<open>- [#007](process/tasks/foo.md) Some title\<close>, where \<open>foo\<close> is non-empty without a closing
  parenthesis and the title carries no further reference to task 007, is rewritten to
  \<open>- [#007](process/tasks/007-bar.md) Some title\<close>: the path of the link changes and every
  other character of the line stays.
\<close>

theorem example_line_rewritten:
  assumes present: "''007-bar.md'' \<in> set names"
    and slash: "\<forall>name\<in>set names. CHR ''/'' \<notin> set name"
    and only: "\<forall>name\<in>set names. prefix ''007-'' name \<longrightarrow> name = ''007-bar.md''"
    and foo: "foo \<noteq> []" "CHR '')'' \<notin> set foo"
    and title: "\<not> carries_ref title ''007''"
  shows "fix_line parse_template (task_files names)
           (''- [#007](process/tasks/'' @ foo @ ''.md)'' @ title)
         = Inr (''- [#007](process/tasks/007-bar.md)'' @ title)"
proof -
  define line where "line = ''- [#007](process/tasks/'' @ foo @ ''.md)'' @ title"
  have l: "line = ''- '' @ old_link ''007'' foo @ title"
    by (simp add: line_def old_link_def ref_link_def)
  have N: "is_task_num ''007''" by (simp add: is_task_num_def is_digit_def)
  have b: "is_ref_body foo" using foo by (simp add: is_ref_body_def)
  have at: "match_ref (drop 2 line) = Some (''007'', title)"
    using N b by (auto simp: l match_ref_iff)
  have before: "\<forall>j < 2. match_ref (drop j line) = None"
  proof (intro allI impI)
    fix j :: nat assume "j < 2"
    then have "j = 0 \<or> j = 1" by auto
    then show "match_ref (drop j line) = None"
      by (auto simp: line_def match_ref_def)
  qed
  define m where "m = \<lparr>m_start = 2, m_end = length line - length title, group1 = ''007''\<rparr>"
  have s: "re_search line = Some m"
    unfolding m_def using before at by (rule re_search_at)
  have g: "fnmatch_task ''007-bar.md''" by code_simp
  have n: "task_num_of ''007-bar.md'' = Some ''007''" by code_simp
  have "task_files names ''007'' = Some (''tasks/'' @ ''007-bar.md'')"
    using present g n slash by (rule task_files_only_entry) (use only in simp)
  then have tf: "task_files names (group1 m) = Some ''tasks/007-bar.md''"
    by (simp add: m_def)
  have bs: "CHR 0x5C \<notin> set ''tasks/007-bar.md''" by simp
  have e: "drop (m_end m) line = title" by (simp add: m_def l)
  have no: "group1 m \<notin> set (ref_nums (drop (m_end m) line))"
  proof -
    have "group1 m = ''007''" by (simp add: m_def)
    with title show ?thesis unfolding e ref_nums_iff by simp
  qed
  have t: "take (m_start m) line = ''- ''" by (simp add: m_def l)
  from fix_line_rewrite [where tf = "task_files names" and parse_template = parse_template,
      OF s tf bs no]
  have "fix_line parse_template (task_files names) line
          = Inr (''- '' @ ref_link ''007'' (''process/'' @ ''tasks/007-bar.md'') @ title)"
    by (simp only: t e) (simp add: m_def)
  then show ?thesis by (simp add: line_def ref_link_def)
qed

text \<open>The line and the file of the specification, in a directory with other entries.\<close>

theorem example_line_rewritten_witness:
  "''007-bar.md'' \<in> set [''README.md'', ''007-bar.md'', ''012-other.md'']
   \<and> \<not> carries_ref '' Some title'' ''007''
   \<and> fix_line (\<lambda>_. Inl ReError) (task_files [''README.md'', ''007-bar.md'', ''012-other.md''])
        ''- [#007](process/tasks/foo.md) Some title''
      = Inr ''- [#007](process/tasks/007-bar.md) Some title''"
proof -
  let ?names = "[''README.md'', ''007-bar.md'', ''012-other.md'']"
  have present: "''007-bar.md'' \<in> set ?names" by simp
  have slash: "\<forall>name\<in>set ?names. CHR ''/'' \<notin> set name" by simp
  have only: "\<forall>name\<in>set ?names. prefix ''007-'' name \<longrightarrow> name = ''007-bar.md''" by simp
  have foo: "''foo'' \<noteq> []" "CHR '')'' \<notin> set ''foo''" by simp_all
  have "''007'' \<notin> set (ref_nums '' Some title'')" by code_simp
  then have title: "\<not> carries_ref '' Some title'' ''007''" unfolding ref_nums_iff .
  from example_line_rewritten [OF present slash only foo title, of "\<lambda>_. Inl ReError"]
    present title
  show ?thesis by simp
qed

text \<open>
  C1 as stated, with nothing more than the file \<open>tasks/007-bar.md\<close> existing, fails when a
  second file carries the number 007: the paths are visited in sorted order and the last
  one wins, so the link is rewritten to \<open>007-baz.md\<close>.
\<close>

theorem two_files_for_one_number_counterexample:
  "''007-bar.md'' \<in> set [''007-bar.md'', ''007-baz.md'']
   \<and> fix_line (\<lambda>_. Inl ReError) (task_files [''007-bar.md'', ''007-baz.md''])
        ''- [#007](process/tasks/foo.md) Some title''
      = Inr ''- [#007](process/tasks/007-baz.md) Some title''"
proof -
  have "fix_line (\<lambda>_. Inl ReError) (task_files [''007-bar.md'', ''007-baz.md''])
        ''- [#007](process/tasks/foo.md) Some title''
      = Inr ''- [#007](process/tasks/007-baz.md) Some title''"
    by code_simp
  then show ?thesis by simp
qed

text \<open>
  C2, amended. The mapping sends a task number to the path of a task file as the glob
  returns it, \<open>tasks/<name>\<close>, the directory included. For every line whose leftmost
  reference pattern carries a number \<open>N\<close> that is a key of the mapping, with a mapped path
  free of backslashes and no further reference to \<open>N\<close> after the leftmost one, the path
  of that link becomes \<open>process/<mapped path>\<close> and the rest of the line stays.
\<close>

theorem leftmost_reference_rewritten:
  assumes s: "re_search line = Some m"
    and tf: "task_files names (group1 m) = Some filepath"
    and bs: "CHR 0x5C \<notin> set filepath"
    and no: "\<not> carries_ref (drop (m_end m) line) (group1 m)"
  shows "(\<exists>name\<in>set names. filepath = ''tasks/'' @ name
            \<and> task_num_of (basename filepath) = Some (group1 m))
       \<and> (\<exists>b. line = take (m_start m) line
                    @ ref_link (group1 m) (''process/tasks/'' @ b @ ''.md'')
                    @ drop (m_end m) line)
       \<and> fix_line parse_template (task_files names) line
           = Inr (take (m_start m) line @ ref_link (group1 m) (''process/'' @ filepath)
                  @ drop (m_end m) line)"
proof (intro conjI)
  from task_files_Some_D [OF tf]
  show "\<exists>name\<in>set names. filepath = ''tasks/'' @ name
            \<and> task_num_of (basename filepath) = Some (group1 m)"
    by (auto simp: glob_tasks_def)
  from re_search_shape(2) [OF s]
  show "\<exists>b. line = take (m_start m) line
                    @ ref_link (group1 m) (''process/tasks/'' @ b @ ''.md'')
                    @ drop (m_end m) line"
    by (auto simp: old_link_def)
  from no have "group1 m \<notin> set (ref_nums (drop (m_end m) line))"
    unfolding ref_nums_iff .
  from fix_line_rewrite [where tf = "task_files names" and parse_template = parse_template,
      OF s tf bs this]
  show "fix_line parse_template (task_files names) line
           = Inr (take (m_start m) line @ ref_link (group1 m) (''process/'' @ filepath)
                  @ drop (m_end m) line)" .
qed

text \<open>A link at the end of a checklist line, rewritten to the file of task 012.\<close>

theorem leftmost_reference_rewritten_witness:
  "re_search ''- [ ] Fix bug [#012](process/tasks/012-old-name.md)''
     = Some \<lparr>m_start = 14, m_end = 51, group1 = ''012''\<rparr>
   \<and> task_files [''007-bar.md'', ''012-other.md''] ''012'' = Some ''tasks/012-other.md''
   \<and> fix_line (\<lambda>_. Inl ReError) (task_files [''007-bar.md'', ''012-other.md''])
        ''- [ ] Fix bug [#012](process/tasks/012-old-name.md)''
      = Inr ''- [ ] Fix bug [#012](process/tasks/012-other.md)''"
proof -
  let ?line = "''- [ ] Fix bug [#012](process/tasks/012-old-name.md)''"
  let ?m = "\<lparr>m_start = 14, m_end = 51, group1 = ''012''\<rparr>"
  have s: "re_search ?line = Some ?m" by code_simp
  have tf: "task_files [''007-bar.md'', ''012-other.md''] (group1 ?m) = Some ''tasks/012-other.md''"
    by code_simp
  have bs: "CHR 0x5C \<notin> set ''tasks/012-other.md''" by simp
  have "group1 ?m \<notin> set (ref_nums (drop (m_end ?m) ?line))" by code_simp
  then have no: "\<not> carries_ref (drop (m_end ?m) ?line) (group1 ?m)"
    unfolding ref_nums_iff .
  from leftmost_reference_rewritten [OF s tf bs no, of "\<lambda>_. Inl ReError"] s tf
  show ?thesis by (simp add: ref_link_def)
qed

text \<open>
  C2 as stated fails in two places. The mapped path of task 007 is \<open>tasks/007-bar.md\<close>,
  not the path \<open>007-bar.md\<close> relative to the tasks directory. And a line that references
  task 007, a key of the mapping, after a reference to a task without a file is not
  rewritten, since only the leftmost reference of a line is looked up.
\<close>

theorem mapped_path_counterexample:
  "task_files [''007-bar.md''] ''007'' = Some ''tasks/007-bar.md''
   \<and> carries_ref ''- [#042](process/tasks/b.md) after [#007](process/tasks/a.md)'' ''007''
   \<and> fix_line (\<lambda>_. Inl ReError) (task_files [''007-bar.md''])
        ''- [#042](process/tasks/b.md) after [#007](process/tasks/a.md)''
      = Inr ''- [#042](process/tasks/b.md) after [#007](process/tasks/a.md)''"
proof -
  have "task_files [''007-bar.md''] ''007'' = Some ''tasks/007-bar.md''" by code_simp
  moreover have "''007'' \<in> set (ref_nums ''- [#042](process/tasks/b.md) after [#007](process/tasks/a.md)'')"
    by code_simp
  then have "carries_ref ''- [#042](process/tasks/b.md) after [#007](process/tasks/a.md)'' ''007''"
    unfolding ref_nums_iff .
  moreover have "fix_line (\<lambda>_. Inl ReError) (task_files [''007-bar.md''])
        ''- [#042](process/tasks/b.md) after [#007](process/tasks/a.md)''
      = Inr ''- [#042](process/tasks/b.md) after [#007](process/tasks/a.md)''"
    by code_simp
  ultimately show ?thesis by (intro conjI)
qed

section \<open>Properties of the tool-manifest comparator\<close>

subsection \<open>Finding, slicing and counting braces\<close>

lemma find_at_first:
  "\<forall>j < k. \<not> prefix sub (drop j s) \<Longrightarrow> prefix sub (drop k s) \<Longrightarrow> k \<le> length s \<Longrightarrow>
   find_at sub s i = int (i + k)"
proof (induction k arbitrary: s i)
  case 0
  then show ?case by (cases s) auto
next
  case (Suc k)
  from Suc.prems(3) obtain c cs where s: "s = c # cs" by (cases s) auto
  from Suc.prems(1) have "\<not> prefix sub (drop 0 s)" by blast
  then have n: "\<not> prefix sub (c # cs)" by (simp add: s)
  have "\<forall>j < k. \<not> prefix sub (drop j cs)"
  proof (intro allI impI)
    fix j assume "j < k"
    then have "Suc j < Suc k" by simp
    with Suc.prems(1) have "\<not> prefix sub (drop (Suc j) s)" by blast
    then show "\<not> prefix sub (drop j cs)" by (simp add: s)
  qed
  moreover from Suc.prems(2) have "prefix sub (drop k cs)" by (simp add: s)
  moreover from Suc.prems(3) have "k \<le> length cs" by (simp add: s)
  ultimately have "find_at sub cs (Suc i) = int (Suc i + k)" by (rule Suc.IH)
  with n show ?case by (simp add: s)
qed

lemma py_find_first:
  assumes "\<forall>j < k. \<not> prefix sub (drop (st + j) s)" and "prefix sub (drop (st + k) s)"
    and "st + k \<le> length s"
  shows "py_find s sub (int st) = int (st + k)"
proof -
  have "find_at sub (drop st s) st = int (st + k)"
    using assms by (intro find_at_first) (simp_all add: add.commute)
  moreover have "\<not> int (length s) < int st" using assms(3) by simp
  ultimately show ?thesis by (simp add: py_find_def Let_def)
qed

lemma py_slice_middle:
  "py_slice (a @ b @ c) (int (length a)) (int (length a + length b)) = b"
  by (simp add: py_slice_def slice_index_def Let_def)

lemma fence_straddle:
  assumes "u \<noteq> []" and "\<not> prefix ''\<newline>```'' u"
  shows "\<not> prefix ''\<newline>```'' (u @ ''\<newline>```'' @ post)"
proof (cases u)
  case Nil
  with assms show ?thesis by simp
next
  case u1: (Cons a u1)
  show ?thesis
  proof (cases u1)
    case Nil
    with u1 show ?thesis by simp
  next
    case u2: (Cons b u2)
    show ?thesis
    proof (cases u2)
      case Nil
      with u1 u2 show ?thesis by simp
    next
      case u3: (Cons c u3)
      show ?thesis
      proof (cases u3)
        case Nil
        with u1 u2 u3 show ?thesis by simp
      next
        case (Cons d u4)
        with u1 u2 u3 assms(2) show ?thesis by simp
      qed
    qed
  qed
qed

lemma scan_braces_balanced:
  assumes "xs \<noteq> []" and "0 < bc"
    and "\<forall>k < length xs. 0 < bc + brace_depth (take k xs)"
    and "bc + brace_depth xs = 0"
  shows "scan_braces (xs @ post) i bc = Some (i + length xs - 1)"
  using assms
proof (induction xs arbitrary: i bc)
  case Nil
  then show ?case by simp
next
  case (Cons c cs)
  show ?case
  proof (cases "cs = []")
    case True
    with Cons.prems(2,4) show ?thesis by (auto split: if_splits)
  next
    case False
    define bc' where "bc' = bc + (if c = CHR ''{'' then 1 else if c = CHR ''}'' then - 1 else 0)"
    from False have "1 < length (c # cs)" by (cases cs) auto
    with Cons.prems(3) have "0 < bc + brace_depth (take 1 (c # cs))" by blast
    then have pos: "0 < bc'" by (simp add: bc'_def)
    have all: "\<forall>k < length cs. 0 < bc' + brace_depth (take k cs)"
    proof (intro allI impI)
      fix k assume "k < length cs"
      then have "Suc k < length (c # cs)" by simp
      with Cons.prems(3) have "0 < bc + brace_depth (take (Suc k) (c # cs))" by blast
      then show "0 < bc' + brace_depth (take k cs)" by (simp add: bc'_def add.assoc)
    qed
    have zero: "bc' + brace_depth cs = 0" using Cons.prems(4) by (simp add: bc'_def add.assoc)
    have ih: "scan_braces (cs @ post) (Suc i) bc' = Some (Suc i + length cs - 1)"
      using False pos all zero by (rule Cons.IH)
    have e: "Suc i + length cs - 1 = i + length (c # cs) - 1" using False by simp
    show ?thesis
    proof (cases "c = CHR ''{''")
      case True
      with ih show ?thesis by (simp add: bc'_def e [symmetric])
    next
      case nopen: False
      show ?thesis
      proof (cases "c = CHR ''}''")
        case True
        with pos have "bc - 1 \<noteq> 0" by (simp add: bc'_def)
        with ih True show ?thesis by (simp add: bc'_def e [symmetric])
      next
        case False
        with ih nopen show ?thesis by (simp add: bc'_def e [symmetric])
      qed
    qed
  qed
qed

lemma print_tools_dict:
  "print_tools label (PyDict items) =
     ([ToolsLine label (length items), FirstTenLine (take 10 (map fst items))], None)"
  by (simp add: print_tools_def)

lemma drop_length_plus: "drop (length xs + k) (xs @ ys) = drop k ys"
  by simp

lemma cursor_json_str_fenced:
  assumes doc: "cursor_content = pre @ ''```json\<newline>'' @ J @ ''\<newline>```'' @ post"
    and brace: "prefix ''{'' J"
    and first: "\<forall>j < length pre. \<not> prefix ''```json\<newline>{'' (drop j cursor_content)"
    and inner: "\<forall>j < length J. \<not> prefix ''\<newline>```'' (drop j J)"
  shows "cursor_json_str cursor_content = J"
proof -
  from brace obtain J' where J: "J = CHR ''{'' # J'" by (auto simp: prefix_def)
  let ?t = "''```json\<newline>'' @ J @ ''\<newline>```'' @ post"
  have start: "py_find cursor_content ''```json\<newline>{'' (int 0) = int (0 + length pre)"
  proof (rule py_find_first)
    show "\<forall>j < length pre. \<not> prefix ''```json\<newline>{'' (drop (0 + j) cursor_content)"
      using first by simp
    show "prefix ''```json\<newline>{'' (drop (0 + length pre) cursor_content)"
      by (simp add: doc J)
    show "0 + length pre \<le> length cursor_content" by (simp add: doc)
  qed
  have "py_find cursor_content ''\<newline>```'' (int (length pre)) = int (length pre + (8 + length J))"
  proof (rule py_find_first)
    show "length pre + (8 + length J) \<le> length cursor_content" by (simp add: doc)
    have "cursor_content = (pre @ ''```json\<newline>'' @ J) @ ''\<newline>```'' @ post"
      by (simp add: doc)
    moreover have "length pre + (8 + length J) = length (pre @ ''```json\<newline>'' @ J)"
      by simp
    ultimately have "drop (length pre + (8 + length J)) cursor_content = ''\<newline>```'' @ post"
      by (metis append_eq_conv_conj)
    then show "prefix ''\<newline>```'' (drop (length pre + (8 + length J)) cursor_content)"
      by (simp only: prefixI)
    show "\<forall>j < 8 + length J. \<not> prefix ''\<newline>```'' (drop (length pre + j) cursor_content)"
    proof (intro allI impI)
      fix j assume j: "j < 8 + length J"
      have d: "drop (length pre + j) cursor_content = drop j ?t" by (simp add: doc)
      show "\<not> prefix ''\<newline>```'' (drop (length pre + j) cursor_content)"
      proof (cases "j < 8")
        case True
        then have "j = 0 \<or> j = 1 \<or> j = 2 \<or> j = 3 \<or> j = 4 \<or> j = 5 \<or> j = 6 \<or> j = 7"
          by arith
        then show ?thesis unfolding d by (auto simp: J)
      next
        case False
        define j' where "j' = j - 8"
        from False j have j': "j' < length J" "j = 8 + j'" by (simp_all add: j'_def)
        have "j = length ''```json\<newline>'' + j'" using j'(2) by simp
        then have "drop j ?t = drop j' (J @ ''\<newline>```'' @ post)"
          by (simp only: drop_length_plus)
        also have "\<dots> = drop j' J @ ''\<newline>```'' @ post"
          using j'(1) by simp
        finally have "drop j ?t = drop j' J @ ''\<newline>```'' @ post" .
        moreover have "drop j' J \<noteq> []" using j'(1) by simp
        moreover have "\<not> prefix ''\<newline>```'' (drop j' J)" using inner j'(1) by blast
        ultimately show ?thesis unfolding d by (simp only: fence_straddle not_False_eq_True)
      qed
    qed
  qed
  with start have
    "cursor_json_str cursor_content
       = py_slice cursor_content (int (length pre) + 8) (int (length pre + (8 + length J)))"
    by (simp add: cursor_json_str_def Let_def)
  also have "\<dots> = py_slice ((pre @ ''```json\<newline>'') @ J @ (''\<newline>```'' @ post))
                      (int (length (pre @ ''```json\<newline>'')))
                      (int (length (pre @ ''```json\<newline>'') + length J))"
    by (simp add: doc ac_simps)
  also have "\<dots> = J" by (rule py_slice_middle)
  finally show ?thesis .
qed

lemma our_json_str_balanced:
  assumes doc: "our_content = pre @ J @ post"
    and opens: "prefix ''{\<newline>  \"'' J"
    and first: "\<forall>j < length pre. \<not> prefix ''{\<newline>  \"'' (drop j our_content)"
    and inside: "\<forall>k < length J. 0 < k \<longrightarrow> 0 < brace_depth (take k J)"
    and closed: "brace_depth J = 0"
  shows "py_find our_content ''{\<newline>  \"'' 0 = int (length pre)"
    and "\<exists>i. scan_braces (py_slice our_content (int (length pre)) (int (length our_content))) 0 0
                = Some i
             \<and> py_slice our_content (int (length pre)) (int (length pre) + int i + 1) = J"
proof -
  from opens obtain r where J: "J = CHR ''{'' # (''\<newline>  \"'' @ r)"
    by (auto simp: prefix_def)
  define rest where "rest = ''\<newline>  \"'' @ r"
  have Jr: "J = CHR ''{'' # rest" by (simp add: J rest_def)
  have ne: "rest \<noteq> []" by (simp add: rest_def)
  have "py_find our_content ''{\<newline>  \"'' (int 0) = int (0 + length pre)"
  proof (rule py_find_first)
    show "\<forall>j < length pre. \<not> prefix ''{\<newline>  \"'' (drop (0 + j) our_content)"
      using first by simp
    show "prefix ''{\<newline>  \"'' (drop (0 + length pre) our_content)"
      by (simp add: doc J)
    show "0 + length pre \<le> length our_content" by (simp add: doc)
  qed
  then show "py_find our_content ''{\<newline>  \"'' 0 = int (length pre)" by simp
  have tail: "py_slice our_content (int (length pre)) (int (length our_content)) = J @ post"
    by (simp add: doc py_slice_def slice_index_def Let_def)
  have all: "\<forall>k < length rest. 0 < 1 + brace_depth (take k rest)"
  proof (intro allI impI)
    fix k assume "k < length rest"
    then have "Suc k < length J" by (simp add: Jr)
    with inside have "0 < brace_depth (take (Suc k) J)" by blast
    then show "0 < 1 + brace_depth (take k rest)" by (simp add: Jr)
  qed
  have zero: "1 + brace_depth rest = 0" using closed by (simp add: Jr)
  have "scan_braces (rest @ post) (Suc 0) 1 = Some (Suc 0 + length rest - 1)"
    using ne _ all zero by (rule scan_braces_balanced) simp
  then have "scan_braces (J @ post) 0 0 = Some (length J - 1)"
    by (simp add: Jr)
  with tail
  have sc: "scan_braces (py_slice our_content (int (length pre)) (int (length our_content))) 0 0
           = Some (length J - 1)" by simp
  have "int (length pre) + int (length J - 1) + 1 = int (length pre + length J)"
    by (simp add: Jr)
  then have "py_slice our_content (int (length pre)) (int (length pre) + int (length J - 1) + 1) = J"
    by (simp only: doc py_slice_middle)
  with sc
  show "\<exists>i. scan_braces (py_slice our_content (int (length pre)) (int (length our_content))) 0 0
                = Some i
             \<and> py_slice our_content (int (length pre)) (int (length pre) + int i + 1) = J"
    by blast
qed

lemma cursor_report_fenced:
  assumes "cursor_content = pre @ ''```json\<newline>'' @ J @ ''\<newline>```'' @ post"
    and "prefix ''{'' J"
    and "\<forall>j < length pre. \<not> prefix ''```json\<newline>{'' (drop j cursor_content)"
    and "\<forall>j < length J. \<not> prefix ''\<newline>```'' (drop j J)"
    and "loads J = Inr (PyDict items)"
  shows "cursor_report loads cursor_content =
           [ToolsLine ''CURSOR TOOLS'' (length items), FirstTenLine (take 10 (map fst items))]"
proof -
  have "cursor_json_str cursor_content = J"
    using assms(1-4) by (rule cursor_json_str_fenced)
  with assms(5) show ?thesis
    by (simp add: cursor_report_def print_tools_dict try_except_def)
qed

lemma our_report_balanced:
  assumes "our_content = pre @ J @ post"
    and "prefix ''{\<newline>  \"'' J"
    and "\<forall>j < length pre. \<not> prefix ''{\<newline>  \"'' (drop j our_content)"
    and "\<forall>k < length J. 0 < k \<longrightarrow> 0 < brace_depth (take k J)"
    and "brace_depth J = 0"
    and "loads J = Inr (PyDict items)"
  shows "our_report loads (Inr our_content) =
           [ToolsLine ''OUR TOOLS'' (length items), FirstTenLine (take 10 (map fst items))]"
proof -
  note f = our_json_str_balanced [OF assms(1-5)]
  from f(2) obtain i
    where i: "scan_braces (py_slice our_content (int (length pre)) (int (length our_content))) 0 0
                = Some i"
      "py_slice our_content (int (length pre)) (int (length pre) + int i + 1) = J"
    by blast
  show ?thesis
    using assms(6)
    by (simp add: our_report_def Let_def f(1) i print_tools_dict try_except_def)
qed

lemma all_less_list_all: "(\<forall>j < n. P j) \<longleftrightarrow> list_all P [0..<n]"
  by (auto simp: list_all_iff)

subsection \<open>Failures of the two documents\<close>

text \<open>
  C3. The claim is that the two attempts are fault-tolerant each on its own: a failure
  in either document, an unreadable file included, is caught and reported on standard
  output and neither ends the process nor keeps the other document from being processed.
  The script does so for the second document, which it opens inside the \<open>try\<close> block.
  It opens the first document outside any \<open>try\<close> block: when that file cannot be read
  the exception is uncaught, nothing is printed and the second document is never
  processed.
\<close>

theorem unreadable_first_document_uncaught:
  "count_real_tools loads (Inl e) our_file = \<lparr>printed_lines = [], uncaught = Some e\<rparr>
   \<and> count_real_tools loads (Inr cursor_content) (Inl e)
       = \<lparr>printed_lines = cursor_report loads cursor_content
                           @ [FailedLine ''Failed to parse our JSON'' e],
          uncaught = None\<rparr>
   \<and> uncaught (count_real_tools loads (Inr cursor_content) our_file) = None"
  by (simp add: count_real_tools_def our_report_def try_except_def)

subsection \<open>Well-formed documents\<close>

text \<open>
  C6, amended. Let the first document hold, at its first marker \<open>```json\<close> followed by a
  line that starts with an opening brace, a text \<open>J\<close> that runs to the next line starting
  with three backquotes; and let the second document hold, at its first occurrence of an
  opening brace followed by a newline, two spaces and a double quote, a text \<open>J'\<close> whose
  braces, counted without regard to strings, first balance at its last character. When
  \<open>json.loads\<close> makes of the text an object with the keys \<open>K\<close>, the comparator reports for
  that document the number of the keys and the first ten of them, which is the prefix of
  the key list of length \<open>min(10, len(K))\<close>.
\<close>

theorem well_formed_object_reported:
  "(cursor_content = pre @ ''```json\<newline>'' @ J @ ''\<newline>```'' @ post
      \<and> prefix ''{'' J
      \<and> (\<forall>j < length pre. \<not> prefix ''```json\<newline>{'' (drop j cursor_content))
      \<and> (\<forall>j < length J. \<not> prefix ''\<newline>```'' (drop j J))
      \<and> loads J = Inr (PyDict items)
    \<longrightarrow> cursor_report loads cursor_content
          = [ToolsLine ''CURSOR TOOLS'' (length items),
             FirstTenLine (take 10 (map fst items))])
   \<and> (our_content = pre' @ J' @ post'
      \<and> prefix ''{\<newline>  \"'' J'
      \<and> (\<forall>j < length pre'. \<not> prefix ''{\<newline>  \"'' (drop j our_content))
      \<and> (\<forall>k < length J'. 0 < k \<longrightarrow> 0 < brace_depth (take k J'))
      \<and> brace_depth J' = 0
      \<and> loads J' = Inr (PyDict items')
    \<longrightarrow> our_report loads (Inr our_content)
          = [ToolsLine ''OUR TOOLS'' (length items'),
             FirstTenLine (take 10 (map fst items'))])
   \<and> length (take 10 (map fst items)) = min 10 (length items)
   \<and> prefix (take 10 (map fst items)) (map fst items)"
proof (intro conjI impI)
  assume "cursor_content = pre @ ''```json\<newline>'' @ J @ ''\<newline>```'' @ post
      \<and> prefix ''{'' J
      \<and> (\<forall>j < length pre. \<not> prefix ''```json\<newline>{'' (drop j cursor_content))
      \<and> (\<forall>j < length J. \<not> prefix ''\<newline>```'' (drop j J))
      \<and> loads J = Inr (PyDict items)"
  then show "cursor_report loads cursor_content
          = [ToolsLine ''CURSOR TOOLS'' (length items),
             FirstTenLine (take 10 (map fst items))]"
    by (intro cursor_report_fenced [of cursor_content pre J post loads items]) blast+
next
  assume "our_content = pre' @ J' @ post'
      \<and> prefix ''{\<newline>  \"'' J'
      \<and> (\<forall>j < length pre'. \<not> prefix ''{\<newline>  \"'' (drop j our_content))
      \<and> (\<forall>k < length J'. 0 < k \<longrightarrow> 0 < brace_depth (take k J'))
      \<and> brace_depth J' = 0
      \<and> loads J' = Inr (PyDict items')"
  then show "our_report loads (Inr our_content)
          = [ToolsLine ''OUR TOOLS'' (length items'),
             FirstTenLine (take 10 (map fst items'))]"
    by (intro our_report_balanced [of our_content pre' J' post' loads items']) blast+
next
  show "length (take 10 (map fst items)) = min 10 (length items)" by simp
  show "prefix (take 10 (map fst items)) (map fst items)" by (rule take_is_prefix)
qed

text \<open>
  A first document with eleven keys on one line and a second document with a nested
  object; the parameter is \<open>json.loads\<close> on these two texts.
\<close>

theorem well_formed_object_reported_witness:
  "cursor_report
     (\<lambda>s. if s = ''{\"t1\": 1, \"t2\": 2, \"t3\": 3, \"t4\": 4, \"t5\": 5, \"t6\": 6, \"t7\": 7, \"t8\": 8, \"t9\": 9, \"t10\": 10, \"t11\": 11}''
          then Inr (PyDict [(''t1'', PyInt 1), (''t2'', PyInt 2), (''t3'', PyInt 3),
                 (''t4'', PyInt 4), (''t5'', PyInt 5), (''t6'', PyInt 6), (''t7'', PyInt 7),
                 (''t8'', PyInt 8), (''t9'', PyInt 9), (''t10'', PyInt 10), (''t11'', PyInt 11)])
          else if s = ''{\<newline>  \"a\": {\"x\": 1},\<newline>  \"b\": 2\<newline>}''
          then Inr (PyDict [(''a'', PyDict [(''x'', PyInt 1)]), (''b'', PyInt 2)])
          else Inl JSONDecodeError)
     (''# Tools\<newline>'' @ ''```json\<newline>''
        @ ''{\"t1\": 1, \"t2\": 2, \"t3\": 3, \"t4\": 4, \"t5\": 5, \"t6\": 6, \"t7\": 7, \"t8\": 8, \"t9\": 9, \"t10\": 10, \"t11\": 11}''
        @ ''\<newline>```'' @ ''\<newline>end\<newline>'')
     = [ToolsLine ''CURSOR TOOLS'' 11,
        FirstTenLine [''t1'', ''t2'', ''t3'', ''t4'', ''t5'', ''t6'', ''t7'', ''t8'', ''t9'', ''t10'']]
   \<and> our_report
     (\<lambda>s. if s = ''{\"t1\": 1, \"t2\": 2, \"t3\": 3, \"t4\": 4, \"t5\": 5, \"t6\": 6, \"t7\": 7, \"t8\": 8, \"t9\": 9, \"t10\": 10, \"t11\": 11}''
          then Inr (PyDict [(''t1'', PyInt 1), (''t2'', PyInt 2), (''t3'', PyInt 3),
                 (''t4'', PyInt 4), (''t5'', PyInt 5), (''t6'', PyInt 6), (''t7'', PyInt 7),
                 (''t8'', PyInt 8), (''t9'', PyInt 9), (''t10'', PyInt 10), (''t11'', PyInt 11)])
          else if s = ''{\<newline>  \"a\": {\"x\": 1},\<newline>  \"b\": 2\<newline>}''
          then Inr (PyDict [(''a'', PyDict [(''x'', PyInt 1)]), (''b'', PyInt 2)])
          else Inl JSONDecodeError)
     (Inr (''Output:\<newline>'' @ ''{\<newline>  \"a\": {\"x\": 1},\<newline>  \"b\": 2\<newline>}'' @ ''\<newline>done\<newline>''))
     = [ToolsLine ''OUR TOOLS'' 2, FirstTenLine [''a'', ''b'']]"
proof -
  define J where
    "J = ''{\"t1\": 1, \"t2\": 2, \"t3\": 3, \"t4\": 4, \"t5\": 5, \"t6\": 6, \"t7\": 7, \"t8\": 8, \"t9\": 9, \"t10\": 10, \"t11\": 11}''"
  define J' where "J' = ''{\<newline>  \"a\": {\"x\": 1},\<newline>  \"b\": 2\<newline>}''"
  define items where
    "items = [(''t1'', PyInt 1), (''t2'', PyInt 2), (''t3'', PyInt 3),
                 (''t4'', PyInt 4), (''t5'', PyInt 5), (''t6'', PyInt 6), (''t7'', PyInt 7),
                 (''t8'', PyInt 8), (''t9'', PyInt 9), (''t10'', PyInt 10), (''t11'', PyInt 11)]"
  define items' where "items' = [(''a'', PyDict [(''x'', PyInt 1)]), (''b'', PyInt 2)]"
  define loads where
    "loads = (\<lambda>s. if s = J then Inr (PyDict items)
                 else if s = J' then Inr (PyDict items') else Inl JSONDecodeError)"
  define cursor_content where
    "cursor_content = ''# Tools\<newline>'' @ ''```json\<newline>'' @ J @ ''\<newline>```'' @ ''\<newline>end\<newline>''"
  define our_content where "our_content = ''Output:\<newline>'' @ J' @ ''\<newline>done\<newline>''"
  have ne: "J \<noteq> J'" by (simp add: J_def J'_def)
  have a1: "prefix ''{'' J" by (simp add: J_def)
  have a2: "\<forall>j < length ''# Tools\<newline>''. \<not> prefix ''```json\<newline>{'' (drop j cursor_content)"
    unfolding cursor_content_def J_def all_less_list_all by code_simp
  have a3: "\<forall>j < length J. \<not> prefix ''\<newline>```'' (drop j J)"
    unfolding J_def all_less_list_all by code_simp
  have a4: "loads J = Inr (PyDict items)" by (simp add: loads_def)
  have b1: "prefix ''{\<newline>  \"'' J'" by (simp add: J'_def)
  have b2: "\<forall>j < length ''Output:\<newline>''. \<not> prefix ''{\<newline>  \"'' (drop j our_content)"
    unfolding our_content_def J'_def all_less_list_all by code_simp
  have b3: "\<forall>k < length J'. 0 < k \<longrightarrow> 0 < brace_depth (take k J')"
    unfolding J'_def all_less_list_all by code_simp
  have b4: "brace_depth J' = 0" unfolding J'_def by code_simp
  have b5: "loads J' = Inr (PyDict items')" using ne by (simp add: loads_def)
  note t = well_formed_object_reported
    [of cursor_content "''# Tools\<newline>''" J "''\<newline>end\<newline>''" loads items
        our_content "''Output:\<newline>''" J' "''\<newline>done\<newline>''" items']
  from t a1 a2 a3 a4
  have r1: "cursor_report loads cursor_content
          = [ToolsLine ''CURSOR TOOLS'' (length items), FirstTenLine (take 10 (map fst items))]"
    by (simp only: cursor_content_def [symmetric] simp_thms)
  from t b1 b2 b3 b4 b5
  have r2: "our_report loads (Inr our_content)
          = [ToolsLine ''OUR TOOLS'' (length items'), FirstTenLine (take 10 (map fst items'))]"
    by (simp only: our_content_def [symmetric] simp_thms)
  have i1: "length items = 11" "take 10 (map fst items)
      = [''t1'', ''t2'', ''t3'', ''t4'', ''t5'', ''t6'', ''t7'', ''t8'', ''t9'', ''t10'']"
    by (simp_all add: items_def)
  have i2: "length items' = 2" "take 10 (map fst items') = [''a'', ''b'']"
    by (simp_all add: items'_def)
  from r1 r2 show ?thesis
    unfolding i1 i2
    unfolding loads_def cursor_content_def our_content_def J_def J'_def items_def items'_def
    by (intro conjI)
qed

text \<open>
  C6 as stated, for every source document that contains a well-formed fenced JSON object,
  fails for the second document, where the script does not look for a fence: a fenced
  object on one line is reported as not found, whatever \<open>json.loads\<close> does. And in the
  first document it is the first fenced block that is reported: a document that also
  contains a fenced object with the two keys \<open>b\<close> and \<open>c\<close> is reported with one key.
\<close>

theorem fenced_object_in_second_document_counterexample:
  "(\<forall>loads. our_report loads (Inr ''```json\<newline>{\"a\": 1}\<newline>```\<newline>'')
       = [TextLine ''Could not find JSON start in our output''])
   \<and> cursor_report
        (\<lambda>s. if s = ''{\"a\": 1}'' then Inr (PyDict [(''a'', PyInt 1)])
             else if s = ''{\"b\": 2, \"c\": 3}''
             then Inr (PyDict [(''b'', PyInt 2), (''c'', PyInt 3)])
             else Inl JSONDecodeError)
        ''```json\<newline>{\"a\": 1}\<newline>```\<newline>```json\<newline>{\"b\": 2, \"c\": 3}\<newline>```\<newline>''
       = [ToolsLine ''CURSOR TOOLS'' 1, FirstTenLine [''a'']]"
proof (intro conjI allI)
  fix loads :: "string \<Rightarrow> exn + py_value"
  have "py_find ''```json\<newline>{\"a\": 1}\<newline>```\<newline>'' ''{\<newline>  \"'' 0 = - 1"
    by code_simp
  then show "our_report loads (Inr ''```json\<newline>{\"a\": 1}\<newline>```\<newline>'')
       = [TextLine ''Could not find JSON start in our output'']"
    by (simp add: our_report_def Let_def try_except_def)
  have "cursor_json_str
          ''```json\<newline>{\"a\": 1}\<newline>```\<newline>```json\<newline>{\"b\": 2, \"c\": 3}\<newline>```\<newline>''
        = ''{\"a\": 1}''"
    by code_simp
  then show "cursor_report
        (\<lambda>s. if s = ''{\"a\": 1}'' then Inr (PyDict [(''a'', PyInt 1)])
             else if s = ''{\"b\": 2, \"c\": 3}''
             then Inr (PyDict [(''b'', PyInt 2), (''c'', PyInt 3)])
             else Inl JSONDecodeError)
        ''```json\<newline>{\"a\": 1}\<newline>```\<newline>```json\<newline>{\"b\": 2, \"c\": 3}\<newline>```\<newline>''
       = [ToolsLine ''CURSOR TOOLS'' 1, FirstTenLine [''a'']]"
    by (simp add: cursor_report_def print_tools_def try_except_def)
qed

section \<open>Properties of the rule-file generator\<close>

lemma split_nl_line:
  "CHR ''\<newline>'' \<notin> set l \<Longrightarrow> split_nl (l @ CHR ''\<newline>'' # rest) = l # split_nl rest"
  by (induction l) auto

lemma split_nl_text_lines:
  "\<forall>l\<in>set ls. CHR ''\<newline>'' \<notin> set l \<Longrightarrow>
   split_nl (text_lines ls @ rest) = ls @ split_nl rest"
proof (induction ls)
  case Nil
  show ?case by (simp add: text_lines_def)
next
  case (Cons l ls)
  then have l: "CHR ''\<newline>'' \<notin> set l"
    and ih: "split_nl (text_lines ls @ rest) = ls @ split_nl rest" by simp_all
  have "text_lines (l # ls) @ rest = l @ CHR ''\<newline>'' # (text_lines ls @ rest)"
    by (simp add: text_lines_def)
  then show ?case by (simp only: split_nl_line [OF l] ih) simp
qed

lemma frontmatter_lines:
  "frontmatter name description =
     text_lines [''---'', ''name: '' @ name, ''description: '' @ description, ''globs:'',
                 ''  - \"**/*\"'', ''alwaysApply: false'', ''---'']"
  by (simp add: frontmatter_def text_lines_def)

lemma split_nl_frontmatter:
  assumes "CHR ''\<newline>'' \<notin> set name" "CHR ''\<newline>'' \<notin> set description"
  shows "split_nl (frontmatter name description @ content) =
           [''---'', ''name: '' @ name, ''description: '' @ description, ''globs:'',
            ''  - \"**/*\"'', ''alwaysApply: false'', ''---''] @ split_nl content"
  unfolding frontmatter_lines
  by (rule split_nl_text_lines) (use assms in simp)

lemma fold_files:
  assumes "\<And>x w. files (step x w) = (files w)(key x \<mapsto> val x)"
  shows "files (fold step xs w) = files w ++ map_of (rev (map (\<lambda>x. (key x, val x)) xs))"
proof (induction xs arbitrary: w)
  case Nil
  show ?case by simp
next
  case (Cons x xs)
  have "files (fold step (x # xs) w) = files (step x w) ++ map_of (rev (map (\<lambda>x. (key x, val x)) xs))"
    by (simp add: Cons.IH)
  also have "\<dots> = files w ++ map_of (rev (map (\<lambda>x. (key x, val x)) (x # xs)))"
    by (simp add: assms map_add_upd_left [symmetric] del: map_add_upd_left)
  finally show ?case .
qed

lemma fold_dirs:
  assumes "\<And>x w. dirs (step x w) = dirs w"
  shows "dirs (fold step xs w) = dirs w"
  by (induction xs arbitrary: w) (simp_all add: assms)

lemma files_create_fold:
  "files (fold (\<lambda>(file_name, name, description, content).
                  create_rule_file (path_join rules_dir file_name) name description content)
               calls w)
   = files w ++ map_of (rev (map (\<lambda>(file_name, name, description, content).
                             (path_join rules_dir file_name,
                              frontmatter name description @ content)) calls))"
proof -
  have "files (fold (\<lambda>(file_name, name, description, content).
                  create_rule_file (path_join rules_dir file_name) name description content)
               calls w)
      = files w ++ map_of (rev (map (\<lambda>x.
           ((\<lambda>(file_name, name, description, content). path_join rules_dir file_name) x,
            (\<lambda>(file_name, name, description, content). frontmatter name description @ content) x))
           calls))"
    by (rule fold_files) (simp add: create_rule_file_def split: prod.splits)
  also have "(\<lambda>x.
           ((\<lambda>(file_name, name, description, content). path_join rules_dir file_name) x,
            (\<lambda>(file_name, name, description, content). frontmatter name description @ content) x))
      = (\<lambda>(file_name, name, description, content).
                             (path_join rules_dir file_name,
                              frontmatter name description @ content))"
    by (simp add: fun_eq_iff)
  finally show ?thesis .
qed

lemma dirs_create_fold:
  "dirs (fold (\<lambda>(file_name, name, description, content).
                  create_rule_file (path_join rules_dir file_name) name description content)
               calls w) = dirs w"
  by (rule fold_dirs) (simp add: create_rule_file_def split: prod.splits)

lemma files_make_rules_dir [simp]: "files (make_rules_dir w) = files w"
  by (simp add: make_rules_dir_def)

lemma files_create_rule_files: "files (create_rule_files w) = files w ++ written"
  by (simp add: create_rule_files_def Let_def files_create_fold written_def)

lemma dirs_create_rule_files: "dirs (create_rule_files w) = dirs (make_rules_dir w)"
  by (simp add: create_rule_files_def Let_def dirs_create_fold)

lemma map_of_rev_distinct:
  assumes "distinct (map fst xs)"
  shows "map_of (rev xs) = map_of xs"
proof (rule ext)
  fix k
  have d: "distinct (map fst (rev xs))" using assms by (simp add: rev_map [symmetric])
  show "map_of (rev xs) k = map_of xs k"
  proof (cases "map_of xs k")
    case None
    then have "k \<notin> fst ` set xs" by (simp add: map_of_eq_None_iff)
    then have "map_of (rev xs) k = None" by (simp add: map_of_eq_None_iff)
    with None show ?thesis by simp
  next
    case (Some v)
    then have "(k, v) \<in> set xs" by (rule map_of_SomeD)
    then have "(k, v) \<in> set (rev xs)" by simp
    with d have "map_of (rev xs) k = Some v" by (simp only: map_of_eq_Some_iff)
    with Some show ?thesis by simp
  qed
qed

lemma rule_file_names:
  "map fst rule_calls =
     [''minsky-workflow-orchestrator.mdc'', ''minsky-cli-usage.mdc'',
      ''minsky-session-management.mdc'', ''task-implementation-workflow.mdc'',
      ''task-status-protocol.mdc'', ''pr-preparation-workflow.mdc'']"
  by (simp add: rule_calls_def)

lemma rule_paths_distinct: "distinct (map fst rule_calls)"
  by (simp add: rule_file_names)

lemma written_paths:
  "map (\<lambda>(file_name, name, description, content).
          (path_join rules_dir file_name, frontmatter name description @ content)) rule_calls
   = map (\<lambda>(file_name, name, description, content).
          (''.cursor/rules/'' @ file_name, frontmatter name description @ content)) rule_calls"
  by (simp add: rule_calls_def path_join_def rules_dir_def suffix_def prefix_def)

lemma written_eq:
  "written = map_of (map (\<lambda>(file_name, name, description, content).
          (''.cursor/rules/'' @ file_name, frontmatter name description @ content)) rule_calls)"
proof -
  let ?kv = "map (\<lambda>(file_name, name, description, content).
          (''.cursor/rules/'' @ file_name, frontmatter name description @ content)) rule_calls"
  have "map fst ?kv = map (\<lambda>f. ''.cursor/rules/'' @ f) (map fst rule_calls)"
    by (simp add: case_prod_unfold comp_def)
  then have "distinct (map fst ?kv)"
    using rule_paths_distinct by (simp add: distinct_map inj_on_def)
  then have "map_of (rev ?kv) = map_of ?kv" by (rule map_of_rev_distinct)
  then show ?thesis by (simp only: written_def written_paths)
qed

lemma bodies_start:
  "body_orchestrator \<noteq> [] \<and> hd body_orchestrator = CHR ''#''"
  "body_cli_usage \<noteq> [] \<and> hd body_cli_usage = CHR ''#''"
  "body_session_management \<noteq> [] \<and> hd body_session_management = CHR ''#''"
  "body_task_implementation \<noteq> [] \<and> hd body_task_implementation = CHR ''#''"
  "body_task_status \<noteq> [] \<and> hd body_task_status = CHR ''#''"
  "body_pr_preparation \<noteq> [] \<and> hd body_pr_preparation = CHR ''#''"
  by (simp_all add: body_orchestrator_def body_cli_usage_def body_session_management_def
        body_task_implementation_def body_task_status_def body_pr_preparation_def
        text_lines_def)

lemma rule_calls_wellformed:
  "list_all (\<lambda>(file_name, name, description, content).
       CHR ''\<newline>'' \<notin> set name \<and> CHR ''\<newline>'' \<notin> set description
       \<and> content \<noteq> [] \<and> hd content \<noteq> CHR ''\<newline>'') rule_calls"
  by (simp add: rule_calls_def bodies_start)

lemma written_Some:
  assumes "(file_name, name, description, content) \<in> set rule_calls"
  shows "written (''.cursor/rules/'' @ file_name) = Some (frontmatter name description @ content)"
proof -
  let ?kv = "map (\<lambda>(file_name, name, description, content).
          (''.cursor/rules/'' @ file_name, frontmatter name description @ content)) rule_calls"
  have "map fst ?kv = map (\<lambda>f. ''.cursor/rules/'' @ f) (map fst rule_calls)"
    by (simp add: case_prod_unfold comp_def)
  then have d: "distinct (map fst ?kv)"
    using rule_paths_distinct by (simp add: distinct_map inj_on_def)
  have "(''.cursor/rules/'' @ file_name, frontmatter name description @ content) \<in> set ?kv"
    using assms by force
  with d show ?thesis by (simp only: written_eq map_of_eq_Some_iff)
qed

lemma files_after_run:
  assumes "(file_name, name, description, content) \<in> set rule_calls"
  shows "files (create_rule_files w) (''.cursor/rules/'' @ file_name)
           = Some (frontmatter name description @ content)"
  using written_Some [OF assms] by (simp add: files_create_rule_files map_add_def)

text \<open>
  C4. A run of the generator writes exactly six files, under \<open>.cursor/rules/\<close> with the
  six fixed \<open>.mdc\<close> names, and leaves every other file as it was. Each of the six begins
  with a header between two lines that are exactly \<open>---\<close>, holding the lines \<open>name:\<close>,
  \<open>description:\<close>, \<open>globs:\<close> with the one item \<open>- "**/*"\<close>, and \<open>alwaysApply: false\<close>; the
  markdown body follows the closing line at once, is not empty and does not begin with a
  blank line.
\<close>

theorem six_rule_files_with_front_matter:
  "map fst rule_calls =
     [''minsky-workflow-orchestrator.mdc'', ''minsky-cli-usage.mdc'',
      ''minsky-session-management.mdc'', ''task-implementation-workflow.mdc'',
      ''task-status-protocol.mdc'', ''pr-preparation-workflow.mdc'']
   \<and> files (create_rule_files w) =
       files w ++ map_of (map (\<lambda>(file_name, name, description, content).
                    (''.cursor/rules/'' @ file_name, frontmatter name description @ content))
                  rule_calls)
   \<and> list_all (\<lambda>(file_name, name, description, content).
         files (create_rule_files w) (''.cursor/rules/'' @ file_name)
           = Some (frontmatter name description @ content)
         \<and> split_nl (frontmatter name description @ content)
           = [''---'', ''name: '' @ name, ''description: '' @ description, ''globs:'',
              ''  - \"**/*\"'', ''alwaysApply: false'', ''---''] @ split_nl content
         \<and> content \<noteq> [] \<and> hd content \<noteq> CHR ''\<newline>'') rule_calls"
proof (intro conjI)
  show "map fst rule_calls =
     [''minsky-workflow-orchestrator.mdc'', ''minsky-cli-usage.mdc'',
      ''minsky-session-management.mdc'', ''task-implementation-workflow.mdc'',
      ''task-status-protocol.mdc'', ''pr-preparation-workflow.mdc'']"
    by (rule rule_file_names)
  show "files (create_rule_files w) =
       files w ++ map_of (map (\<lambda>(file_name, name, description, content).
                    (''.cursor/rules/'' @ file_name, frontmatter name description @ content))
                  rule_calls)"
    by (simp only: files_create_rule_files written_eq)
  show "list_all (\<lambda>(file_name, name, description, content).
         files (create_rule_files w) (''.cursor/rules/'' @ file_name)
           = Some (frontmatter name description @ content)
         \<and> split_nl (frontmatter name description @ content)
           = [''---'', ''name: '' @ name, ''description: '' @ description, ''globs:'',
              ''  - \"**/*\"'', ''alwaysApply: false'', ''---''] @ split_nl content
         \<and> content \<noteq> [] \<and> hd content \<noteq> CHR ''\<newline>'') rule_calls"
    unfolding list_all_iff
  proof (intro ballI)
    fix x assume x: "x \<in> set rule_calls"
    obtain f n d c where e: "x = (f, n, d, c)" by (cases x)
    from rule_calls_wellformed x e
    have wf: "CHR ''\<newline>'' \<notin> set n" "CHR ''\<newline>'' \<notin> set d" "c \<noteq> []" "hd c \<noteq> CHR ''\<newline>''"
      by (auto simp: list_all_iff)
    from x e have "(f, n, d, c) \<in> set rule_calls" by simp
    then have "files (create_rule_files w) (''.cursor/rules/'' @ f) = Some (frontmatter n d @ c)"
      by (rule files_after_run)
    with wf split_nl_frontmatter [OF wf(1,2), of c]
    show "case x of (file_name, name, description, content) \<Rightarrow>
         files (create_rule_files w) (''.cursor/rules/'' @ file_name)
           = Some (frontmatter name description @ content)
         \<and> split_nl (frontmatter name description @ content)
           = [''---'', ''name: '' @ name, ''description: '' @ description, ''globs:'',
              ''  - \"**/*\"'', ''alwaysApply: false'', ''---''] @ split_nl content
         \<and> content \<noteq> [] \<and> hd content \<noteq> CHR ''\<newline>''"
      by (simp add: e)
  qed
qed

text \<open>
  C5. Running the generator again on the output of a run changes nothing: the files and
  the directories after the second run are those after the first, and each of the six
  rule files holds, after either run, the same front matter and body.
\<close>

theorem rerun_writes_same_files:
  "files (create_rule_files (create_rule_files w)) = files (create_rule_files w)
   \<and> dirs (create_rule_files (create_rule_files w)) = dirs (create_rule_files w)
   \<and> list_all (\<lambda>(file_name, name, description, content).
         files (create_rule_files w) (''.cursor/rules/'' @ file_name)
           = Some (frontmatter name description @ content)
         \<and> files (create_rule_files (create_rule_files w)) (''.cursor/rules/'' @ file_name)
           = Some (frontmatter name description @ content)) rule_calls"
proof (intro conjI)
  have "written ++ written = written"
    by (rule ext) (simp add: map_add_def split: option.splits)
  moreover have "files w ++ written ++ written = files w ++ (written ++ written)"
    by (simp only: map_add_assoc)
  ultimately show "files (create_rule_files (create_rule_files w)) = files (create_rule_files w)"
    by (simp only: files_create_rule_files)
  show "dirs (create_rule_files (create_rule_files w)) = dirs (create_rule_files w)"
    by (auto simp: dirs_create_rule_files make_rules_dir_def files_create_rule_files)
  show "list_all (\<lambda>(file_name, name, description, content).
         files (create_rule_files w) (''.cursor/rules/'' @ file_name)
           = Some (frontmatter name description @ content)
         \<and> files (create_rule_files (create_rule_files w)) (''.cursor/rules/'' @ file_name)
           = Some (frontmatter name description @ content)) rule_calls"
    unfolding list_all_iff
  proof (intro ballI)
    fix x assume x: "x \<in> set rule_calls"
    obtain fn n d c where e: "x = (fn, n, d, c)" by (cases x)
    from x e have m: "(fn, n, d, c) \<in> set rule_calls" by simp
    from files_after_run [OF m, of w] files_after_run [OF m, of "create_rule_files w"]
    show "case x of (file_name, name, description, content) \<Rightarrow>
         files (create_rule_files w) (''.cursor/rules/'' @ file_name)
           = Some (frontmatter name description @ content)
         \<and> files (create_rule_files (create_rule_files w)) (''.cursor/rules/'' @ file_name)
           = Some (frontmatter name description @ content)"
      by (simp add: e)
  qed
qed

end
